theory Spec2Isabelle
  imports Complex_Main "HOL-Library.Sublist" "HOL-Library.Log_Nat"
begin

section \<open>JavaScript values\<close>

text \<open>
  The merge engine of \<^verbatim>\<open>src/utils/excelUtils.ts\<close> works on untyped cell values
  (\<^verbatim>\<open>any\<close>). A cell is a string, a number, a boolean, \<^verbatim>\<open>null\<close> or
  \<^verbatim>\<open>undefined\<close>. A number is modelled by its rational value, or is one of the
  three special doubles. The arithmetic of the date conversion is rounded as binary64
  arithmetic rounds it (\<open>roundDouble\<close> below); a decimal literal is read by
  \<open>parseFloat\<close> as the exact number it denotes. Strings are byte lists (UTF-8), so the
  ASCII part of the whitespace and digit classes is modelled.
\<close>

datatype jsnum = Fin rat | PosInf | NegInf | NaN

datatype jsval = Undefined | Null | Str string | Num jsnum | Bool bool

definition isWhiteSpace :: "char \<Rightarrow> bool" where
  "isWhiteSpace c = (c \<in> set [CHR '' '', CHR 0x09, CHR 0x0A, CHR 0x0B, CHR 0x0C, CHR 0x0D])"

definition isDigit :: "char \<Rightarrow> bool" where
  "isDigit c = (c \<in> set ''0123456789'')"

definition digitVal :: "char \<Rightarrow> int" where
  "digitVal c = of_char c - 48"

text \<open>\<^verbatim>\<open>String.prototype.trim\<close>.\<close>

definition trim :: "string \<Rightarrow> string" where
  "trim s = rev (dropWhile isWhiteSpace (rev (dropWhile isWhiteSpace s)))"

text \<open>Decimal digits of a natural number, as a template literal prints an index.\<close>

definition digitChar :: "nat \<Rightarrow> char" where
  "digitChar k = ''0123456789'' ! (k mod 10)"

fun digitsOf :: "nat \<Rightarrow> string" where
  "digitsOf n = (if n < 10 then [digitChar n]
                 else digitsOf (n div 10) @ [digitChar (n mod 10)])"

declare digitsOf.simps [simp del]

fun fracDigits :: "nat \<Rightarrow> rat \<Rightarrow> string" where
  "fracDigits 0 r = []"
| "fracDigits (Suc n) r =
     (if r = 0 then []
      else (let d = nat \<lfloor>r * 10\<rfloor> in digitChar d # fracDigits n (r * 10 - of_nat d)))"

text \<open>
  \<^verbatim>\<open>Number::toString\<close>: exact on integers (below the exponent notation of very large
  doubles); a finite decimal fraction is printed digit by digit, up to 17 digits.
\<close>

definition numToString :: "jsnum \<Rightarrow> string" where
  "numToString x =
     (case x of
        NaN \<Rightarrow> ''NaN''
      | PosInf \<Rightarrow> ''Infinity''
      | NegInf \<Rightarrow> ''-Infinity''
      | Fin r \<Rightarrow>
          (let a = \<bar>r\<bar>; ip = nat \<lfloor>a\<rfloor>; fp = a - of_nat ip;
               body = digitsOf ip @ (if fp = 0 then [] else CHR ''.'' # fracDigits 17 fp)
           in if r < 0 then CHR ''-'' # body else body))"

text \<open>The conversion \<^verbatim>\<open>String(v)\<close>.\<close>

fun jsString :: "jsval \<Rightarrow> string" where
  "jsString Undefined = ''undefined''"
| "jsString Null = ''null''"
| "jsString (Str s) = s"
| "jsString (Num n) = numToString n"
| "jsString (Bool b) = (if b then ''true'' else ''false'')"

text \<open>Truthiness, as \<^verbatim>\<open>if (v)\<close> and \<^verbatim>\<open>a && v\<close> test it.\<close>

fun truthy :: "jsval \<Rightarrow> bool" where
  "truthy Undefined = False"
| "truthy Null = False"
| "truthy (Str s) = (s \<noteq> [])"
| "truthy (Num (Fin r)) = (r \<noteq> 0)"
| "truthy (Num NaN) = False"
| "truthy (Num _) = True"
| "truthy (Bool b) = b"

subsection \<open>parseFloat\<close>

fun digitsValue :: "int \<Rightarrow> string \<Rightarrow> int" where
  "digitsValue acc [] = acc"
| "digitsValue acc (c # cs) = digitsValue (acc * 10 + digitVal c) cs"

definition isPrefixOf :: "string \<Rightarrow> string \<Rightarrow> bool" where
  "isPrefixOf p s = (take (length p) s = p)"

text \<open>
  The exponent part of a decimal literal: \<^verbatim>\<open>e\<close> or \<^verbatim>\<open>E\<close>, an optional sign and at
  least one digit; anything else contributes nothing.
\<close>

definition exponentOf :: "string \<Rightarrow> int" where
  "exponentOf s =
     (case s of
        [] \<Rightarrow> 0
      | c # r \<Rightarrow>
          (if c = CHR ''e'' \<or> c = CHR ''E'' then
             (case r of
                [] \<Rightarrow> 0
              | d # r' \<Rightarrow>
                  (if d = CHR ''-'' then
                     (if takeWhile isDigit r' = [] then 0
                      else - digitsValue 0 (takeWhile isDigit r'))
                   else if d = CHR ''+'' then digitsValue 0 (takeWhile isDigit r')
                   else digitsValue 0 (takeWhile isDigit r)))
           else 0))"

definition scale10 :: "rat \<Rightarrow> int \<Rightarrow> rat" where
  "scale10 m e = (if 0 \<le> e then m * 10 ^ nat e else m / 10 ^ nat (- e))"

text \<open>
  \<^verbatim>\<open>parseFloat\<close>: leading white space is skipped, then the longest prefix that is
  a decimal literal (or \<^verbatim>\<open>Infinity\<close>) is read; without one the result is NaN.
\<close>

definition parseFloat :: "string \<Rightarrow> jsnum" where
  "parseFloat s =
     (let t = dropWhile isWhiteSpace s;
          neg = (t \<noteq> [] \<and> hd t = CHR ''-'');
          u = (if t \<noteq> [] \<and> (hd t = CHR ''-'' \<or> hd t = CHR ''+'') then tl t else t)
      in if isPrefixOf ''Infinity'' u then (if neg then NegInf else PosInf)
         else
           (let ip = takeWhile isDigit u;
                r1 = dropWhile isDigit u;
                hasDot = (r1 \<noteq> [] \<and> hd r1 = CHR ''.'');
                fp = (if hasDot then takeWhile isDigit (tl r1) else []);
                r2 = (if hasDot then dropWhile isDigit (tl r1) else r1)
            in if ip = [] \<and> fp = [] then NaN
               else
                 (let m = of_int (digitsValue 0 ip)
                          + of_int (digitsValue 0 fp) / 10 ^ length fp;
                      v = scale10 m (exponentOf r2)
                  in Fin (if neg then - v else v))))"

subsection \<open>Calendar dates\<close>

text \<open>
  \<^verbatim>\<open>new Date(ms).toISOString().split('T')[0]\<close>: the UTC calendar date of an instant
  given in milliseconds since the epoch. The day number is turned into a proleptic
  Gregorian date by the usual era computation (400-year eras of 146097 days, years
  beginning in March).
\<close>

definition civilFromDays :: "int \<Rightarrow> int \<times> int \<times> int" where
  "civilFromDays days =
     (let z = days + 719468;
          era = z div 146097;
          doe = z mod 146097;
          yoe = (doe - doe div 1460 + doe div 36524 - doe div 146096) div 365;
          doy = doe - (365 * yoe + yoe div 4 - yoe div 100);
          mp = (5 * doy + 2) div 153;
          d = doy - (153 * mp + 2) div 5 + 1;
          m = (if mp < 10 then mp + 3 else mp - 9);
          y = yoe + era * 400
      in (if m \<le> 2 then y + 1 else y, m, d))"

definition padLeft :: "nat \<Rightarrow> string \<Rightarrow> string" where
  "padLeft n s = replicate (n - length s) CHR ''0'' @ s"

definition isoYear :: "int \<Rightarrow> string" where
  "isoYear y =
     (if 0 \<le> y \<and> y \<le> 9999 then padLeft 4 (digitsOf (nat y))
      else (if y < 0 then CHR ''-'' else CHR ''+'') # padLeft 6 (digitsOf (nat \<bar>y\<bar>)))"

definition formatDate :: "int \<times> int \<times> int \<Rightarrow> string" where
  "formatDate ymd =
     (case ymd of
        (y, m, d) \<Rightarrow>
          isoYear y @ ''-'' @ padLeft 2 (digitsOf (nat m)) @ ''-'' @ padLeft 2 (digitsOf (nat d)))"

definition isoDate :: "int \<Rightarrow> string" where
  "isoDate ms = formatDate (civilFromDays (ms div 86400000))"

text \<open>\<^verbatim>\<open>Math.round\<close> rounds halves upwards.\<close>

definition mathRound :: "rat \<Rightarrow> int" where
  "mathRound x = \<lfloor>x + 1 / 2\<rfloor>"

subsection \<open>Double arithmetic\<close>

text \<open>
  The result of an arithmetic operation on doubles is the exact result rounded to the
  nearest number with 53 significant bits, ties going to the even one. \<open>floorLog2 x\<close>
  is the exponent \<open>e\<close> with \<open>2 ^ e \<le> x < 2 ^ (e + 1)\<close> for a positive \<open>x\<close>. The
  limits of the exponent range (overflow, subnormal numbers) are left out: the date
  conversion below works on numbers between \<open>2 ^ -38\<close> and \<open>2 ^ 43\<close> in magnitude.
\<close>

definition floorLog2 :: "rat \<Rightarrow> int" where
  "floorLog2 x = (if 1 \<le> x then bitlen \<lfloor>x\<rfloor> - 1 else - bitlen (\<lceil>1 / x\<rceil> - 1))"

definition pow2 :: "int \<Rightarrow> rat" where
  "pow2 e = (if 0 \<le> e then 2 ^ nat e else 1 / 2 ^ nat (- e))"

definition roundTiesEven :: "rat \<Rightarrow> int" where
  "roundTiesEven q =
     (let f = \<lfloor>q\<rfloor>; d = q - of_int f
      in if d < 1 / 2 then f else if 1 / 2 < d then f + 1 else if even f then f else f + 1)"

definition roundDouble :: "rat \<Rightarrow> rat" where
  "roundDouble x =
     (if x = 0 then 0
      else (let u = pow2 (floorLog2 \<bar>x\<bar> - 52)
            in sgn x * of_int (roundTiesEven (\<bar>x\<bar> / u)) * u))"

section \<open>The value normalizer\<close>

text \<open>
  \<^verbatim>\<open>excelDateToJSDate\<close> is reached from \<^verbatim>\<open>cleanAndFormatValue\<close> only, with a
  number that passed \<^verbatim>\<open>isPotentialExcelDate\<close>; its argument is a finite number. The
  subtraction and the two multiplications of \<^verbatim>\<open>(serial - 25569) * 86400 * 1000\<close> are
  each rounded; \<^verbatim>\<open>Math.round\<close> is then exact.
\<close>

definition excelDateToJSDate :: "rat \<Rightarrow> string" where
  "excelDateToJSDate serial =
     (if serial < 1 \<or> serial > 100000 then numToString (Fin serial)
      else isoDate (mathRound
             (roundDouble (roundDouble (roundDouble (serial - 25569) * 86400) * 1000))))"

fun isPotentialExcelDate :: "jsval \<Rightarrow> bool" where
  "isPotentialExcelDate (Num (Fin r)) = (r > 20000 \<and> r < 60000)"
| "isPotentialExcelDate _ = False"

text \<open>
  The pattern \<^verbatim>\<open>/^[$\<euro>\<pounds>\<yen>]?\s*-?[\d,]+(\.\d+)?%?$/\<close>. Each piece of the pattern
  is followed by a piece that cannot start with the same characters, so the greedy
  left-to-right reading below accepts exactly the strings the pattern accepts.
  The three non-ASCII currency signs are their UTF-8 bytes.
\<close>

definition currencySymbols :: "string list" where
  "currencySymbols =
     [''$'', [CHR 0xE2, CHR 0x82, CHR 0xAC], [CHR 0xC2, CHR 0xA3], [CHR 0xC2, CHR 0xA5]]"

definition dropCurrency :: "string \<Rightarrow> string" where
  "dropCurrency s =
     (case filter (\<lambda>p. isPrefixOf p s) currencySymbols of
        [] \<Rightarrow> s
      | p # _ \<Rightarrow> drop (length p) s)"

definition dropSign :: "string \<Rightarrow> string" where
  "dropSign s = (case s of [] \<Rightarrow> [] | c # r \<Rightarrow> if c = CHR ''-'' then r else s)"

definition isDigitOrComma :: "char \<Rightarrow> bool" where
  "isDigitOrComma c = (isDigit c \<or> c = CHR '','')"

definition dropFraction :: "string \<Rightarrow> string" where
  "dropFraction s =
     (case s of
        [] \<Rightarrow> []
      | c # r \<Rightarrow>
          if c = CHR ''.'' \<and> takeWhile isDigit r \<noteq> [] then dropWhile isDigit r else s)"

definition dropPercent :: "string \<Rightarrow> string" where
  "dropPercent s = (case s of [] \<Rightarrow> [] | c # r \<Rightarrow> if c = CHR ''%'' then r else s)"

definition matchesNumberPattern :: "string \<Rightarrow> bool" where
  "matchesNumberPattern s =
     (let s3 = dropSign (dropWhile isWhiteSpace (dropCurrency s))
      in takeWhile isDigitOrComma s3 \<noteq> []
         \<and> dropPercent (dropFraction (dropWhile isDigitOrComma s3)) = [])"

text \<open>\<^verbatim>\<open>replace(/[^0-9.-]/g, '')\<close>.\<close>

definition keepNumericChars :: "string \<Rightarrow> string" where
  "keepNumericChars s = filter (\<lambda>c. isDigit c \<or> c = CHR ''.'' \<or> c = CHR ''-'') s"

definition cleanAndFormatValue :: "jsval \<Rightarrow> jsval" where
  "cleanAndFormatValue val =
     (if val = Undefined \<or> val = Null \<or> val = Str [] then Str []
      else
        (case val of
           Num (Fin r) \<Rightarrow>
             if isPotentialExcelDate val then Str (excelDateToJSDate r) else val
         | Str s \<Rightarrow>
             (let trimmed = trim s
              in if matchesNumberPattern trimmed then
                   (let cleanNum = parseFloat (keepNumericChars trimmed)
                    in if cleanNum \<noteq> NaN then Num cleanNum else Str trimmed)
                 else Str trimmed)
         | _ \<Rightarrow> val))"

section \<open>The header registry\<close>

text \<open>
  \<^verbatim>\<open>makeHeadersUnique\<close>. The counter object \<^verbatim>\<open>counts\<close> is a finite map from the
  cleaned names to numbers (own properties only), threaded through the \<^verbatim>\<open>map\<close> callback.
\<close>

fun uniqueFrom :: "(string \<rightharpoonup> nat) \<Rightarrow> string list \<Rightarrow> string list" where
  "uniqueFrom counts [] = []"
| "uniqueFrom counts (h # hs) =
     (let original = trim (if h = [] then ''Column'' else h);
          cleanHeader = (if original = [] then ''Column'' else original)
      in case counts cleanHeader of
           None \<Rightarrow> cleanHeader # uniqueFrom (counts(cleanHeader \<mapsto> 0)) hs
         | Some n \<Rightarrow>
             (cleanHeader @ ''_'' @ digitsOf (n + 1))
               # uniqueFrom (counts(cleanHeader \<mapsto> n + 1)) hs)"

definition makeHeadersUnique :: "string list \<Rightarrow> string list" where
  "makeHeadersUnique rawHeaders = uniqueFrom Map.empty rawHeaders"

section \<open>Sheets, mappings and mapping ids\<close>

text \<open>
  A row is an object from header names to cell values; \<^verbatim>\<open>row[h]\<close> of an absent
  property is \<^verbatim>\<open>undefined\<close>. Objects are modelled by their own properties: the names
  every object inherits (\<^verbatim>\<open>constructor\<close>, \<^verbatim>\<open>toString\<close>, ...) are not modelled as
  headers. A mapping (\<^verbatim>\<open>Record<string, string[]>\<close>) is the list
  of its entries, as \<^verbatim>\<open>Object.entries\<close> yields them; \<^verbatim>\<open>mappings[k]\<close> is the
  lookup in it.
\<close>

type_synonym row = "string \<rightharpoonup> jsval"

record SheetData =
  fileName :: string
  sheetName :: string
  headers :: "string list"
  rows :: "row list"

type_synonym mappings = "(string \<times> string list) list"

datatype MergeMethod = Vertical | Join

datatype JoinType = Outer | Inner | Left

record MergeConfig =
  mergeMethod :: MergeMethod \<comment> \<open>the property \<^verbatim>\<open>method\<close>\<close>
  joinKey :: string
  joinType :: JoinType
  removeDuplicates :: bool

definition getProp :: "row \<Rightarrow> string \<Rightarrow> jsval" where
  "getProp r h = (case r h of None \<Rightarrow> Undefined | Some v \<Rightarrow> v)"

text \<open>\<^verbatim>\<open>s.split('::')\<close>, \<^verbatim>\<open>s.includes('::')\<close> and \<^verbatim>\<open>parts.join('::')\<close>.\<close>

fun splitFrom :: "string \<Rightarrow> string \<Rightarrow> string list" where
  "splitFrom cur (c # d # r) =
     (if c = CHR '':'' \<and> d = CHR '':'' then cur # splitFrom [] r
      else splitFrom (cur @ [c]) (d # r))"
| "splitFrom cur [c] = [cur @ [c]]"
| "splitFrom cur [] = [cur]"

definition splitDelim :: "string \<Rightarrow> string list" where
  "splitDelim s = splitFrom [] s"

fun includesDelim :: "string \<Rightarrow> bool" where
  "includesDelim (c # d # r) = ((c = CHR '':'' \<and> d = CHR '':'') \<or> includesDelim (d # r))"
| "includesDelim _ = False"

fun joinDelim :: "string list \<Rightarrow> string" where
  "joinDelim [] = []"
| "joinDelim [x] = x"
| "joinDelim (x # y # r) = x @ ''::'' @ joinDelim (y # r)"

text \<open>\<^verbatim>\<open>parseMappingId\<close> returns the triple \<^verbatim>\<open>{ fileName, sheetName, header }\<close>.\<close>

definition parseMappingId :: "string \<Rightarrow> string \<times> string \<times> string" where
  "parseMappingId mappingId =
     (let parts = splitDelim mappingId
      in if length parts < 3 then ([], [], mappingId)
         else (parts ! 0, parts ! 1, joinDelim (drop 2 parts)))"

section \<open>Stack merge\<close>

text \<open>
  The inner \<^verbatim>\<open>for (const mId of sourceMappingIds)\<close> of \<^verbatim>\<open>stackData\<close>: the value
  starts as the empty string and the loop stops at the first candidate that applies to
  the sheet and holds a value that is not undefined, null or empty.
\<close>

fun stackValue :: "SheetData \<Rightarrow> row \<Rightarrow> string list \<Rightarrow> jsval" where
  "stackValue sheet r [] = Str []"
| "stackValue sheet r (mId # rest) =
     (case parseMappingId mId of
        (fName, sName, header) \<Rightarrow>
          if (fName = fileName sheet \<and> sName = sheetName sheet) \<or> \<not> includesDelim mId then
            (let targetHeader = (if includesDelim mId then header else mId)
             in case r targetHeader of
                  Some rawVal \<Rightarrow>
                    if rawVal \<noteq> Undefined \<and> rawVal \<noteq> Null \<and> rawVal \<noteq> Str [] then rawVal
                    else stackValue sheet r rest
                | None \<Rightarrow> stackValue sheet r rest)
          else stackValue sheet r rest)"

definition stackRow :: "SheetData \<Rightarrow> mappings \<Rightarrow> nat \<Rightarrow> row \<Rightarrow> row" where
  "stackRow sheet mappings index r =
     (let newRow0 = [''id'' \<mapsto> Str (fileName sheet @ ''-'' @ sheetName sheet @ ''-'' @ digitsOf index)];
          newRow1 = fold (\<lambda>(targetField, sourceMappingIds) newRow.
                            newRow(targetField \<mapsto> cleanAndFormatValue (stackValue sheet r sourceMappingIds)))
                      mappings newRow0
      in newRow1(''_sourceFile'' \<mapsto> Str (fileName sheet), ''_sourceSheet'' \<mapsto> Str (sheetName sheet)))"

definition stackData :: "SheetData list \<Rightarrow> mappings \<Rightarrow> row list" where
  "stackData sheets mappings =
     fold (\<lambda>sheet merged.
             merged @ map (\<lambda>(index, r). stackRow sheet mappings index r) (enumerate 0 (rows sheet)))
       sheets []"

text \<open>
  The resolver as the specification words it (section 4.3): only candidates whose file
  and sheet equal the row's sheet are looked at; the first value that is defined, non-null
  and non-empty is returned, otherwise the empty string.
\<close>

fun resolveCandidates :: "SheetData \<Rightarrow> row \<Rightarrow> string list \<Rightarrow> jsval" where
  "resolveCandidates sheet r [] = Str []"
| "resolveCandidates sheet r (c # rest) =
     (case parseMappingId c of
        (fName, sName, header) \<Rightarrow>
          if fName = fileName sheet \<and> sName = sheetName sheet
             \<and> getProp r header \<noteq> Undefined \<and> getProp r header \<noteq> Null
             \<and> getProp r header \<noteq> Str []
          then getProp r header
          else resolveCandidates sheet r rest)"

definition resolveValue :: "mappings \<Rightarrow> string \<Rightarrow> SheetData \<Rightarrow> row \<Rightarrow> jsval" where
  "resolveValue mapping field sheet r =
     resolveCandidates sheet r (case map_of mapping field of None \<Rightarrow> [] | Some cs \<Rightarrow> cs)"

section \<open>Join merge\<close>

text \<open>
  The key index of \<^verbatim>\<open>joinData\<close>: \<^verbatim>\<open>keyMap\<close> is a \<^verbatim>\<open>Map\<close> from key strings to slot
  objects, \<^verbatim>\<open>allKeySet\<close> a \<^verbatim>\<open>Set\<close>; both keep insertion order. A slot object has
  sheet indices as property names, which JavaScript enumerates in ascending order.
\<close>

type_synonym slots = "(nat \<times> row) list"

record keyIndex =
  keyMap :: "(string \<times> slots) list"
  allKeySet :: "string list"

definition setAdd :: "string list \<Rightarrow> string \<Rightarrow> string list" where
  "setAdd xs x = (if x \<in> set xs then xs else xs @ [x])"

text \<open>\<^verbatim>\<open>Array.from(new Set(xs))\<close>: the first occurrence of each element, in order.\<close>

definition arrayFromSet :: "string list \<Rightarrow> string list" where
  "arrayFromSet xs = fold (\<lambda>x acc. setAdd acc x) xs []"

fun mapSet :: "string \<Rightarrow> 'v \<Rightarrow> (string \<times> 'v) list \<Rightarrow> (string \<times> 'v) list" where
  "mapSet k v [] = [(k, v)]"
| "mapSet k v ((a, b) # m) = (if a = k then (k, v) # m else (a, b) # mapSet k v m)"

fun setSlot :: "nat \<Rightarrow> row \<Rightarrow> slots \<Rightarrow> slots" where
  "setSlot i r [] = [(i, r)]"
| "setSlot i r ((j, q) # e) =
     (if i < j then (i, r) # (j, q) # e
      else if i = j then (i, r) # e
      else (j, q) # setSlot i r e)"

text \<open>The key of a row: the first key candidate of the row's sheet with a non-blank value.\<close>

fun deriveKey :: "SheetData \<Rightarrow> row \<Rightarrow> string list \<Rightarrow> string option" where
  "deriveKey sheet r [] = None"
| "deriveKey sheet r (mId # rest) =
     (case parseMappingId mId of
        (fName, sName, header) \<Rightarrow>
          if fName = fileName sheet \<and> sName = sheetName sheet
             \<and> getProp r header \<noteq> Undefined \<and> getProp r header \<noteq> Null
             \<and> trim (jsString (getProp r header)) \<noteq> []
          then Some (trim (jsString (getProp r header)))
          else deriveKey sheet r rest)"

definition sourceRow :: "SheetData \<Rightarrow> row \<Rightarrow> row" where
  "sourceRow sheet r = r(''_srcFile'' \<mapsto> Str (fileName sheet), ''_srcSheet'' \<mapsto> Str (sheetName sheet))"

definition indexRow :: "string list \<Rightarrow> SheetData \<Rightarrow> nat \<Rightarrow> row \<Rightarrow> keyIndex \<Rightarrow> keyIndex" where
  "indexRow keyMappingIds sheet sheetIndex r st =
     (case deriveKey sheet r keyMappingIds of
        None \<Rightarrow> st
      | Some keyValue \<Rightarrow>
          if keyValue = [] then st
          else
            (let st1 = (if map_of (keyMap st) keyValue = None
                        then \<lparr>keyMap = mapSet keyValue [] (keyMap st),
                              allKeySet = setAdd (allKeySet st) keyValue\<rparr>
                        else st);
                 existing = (case map_of (keyMap st1) keyValue of None \<Rightarrow> [] | Some e \<Rightarrow> e)
             in if map_of existing sheetIndex = None
                then st1\<lparr>keyMap := mapSet keyValue (setSlot sheetIndex (sourceRow sheet r) existing)
                                      (keyMap st1)\<rparr>
                else st1))"

definition buildIndex :: "SheetData list \<Rightarrow> string list \<Rightarrow> keyIndex" where
  "buildIndex sheets keyMappingIds =
     fold (\<lambda>(sheetIndex, sheet) st. fold (indexRow keyMappingIds sheet sheetIndex) (rows sheet) st)
       (enumerate 0 sheets) \<lparr>keyMap = [], allKeySet = []\<rparr>"

text \<open>The key pushed for a row of the first sheet by the \<^verbatim>\<open>'left'\<close> branch.\<close>

fun leftKey :: "SheetData \<Rightarrow> row \<Rightarrow> string list \<Rightarrow> string option" where
  "leftKey sheet0 r [] = None"
| "leftKey sheet0 r (mId # rest) =
     (case parseMappingId mId of
        (fName, sName, header) \<Rightarrow>
          if fName = fileName sheet0 \<and> sName = sheetName sheet0 \<and> truthy (getProp r header)
          then Some (trim (jsString (getProp r header)))
          else leftKey sheet0 r rest)"

definition finalKeys :: "SheetData list \<Rightarrow> mappings \<Rightarrow> 'a MergeConfig_scheme \<Rightarrow> string list" where
  "finalKeys sheets mappings config =
     (let keyMappingIds = (case map_of mappings (joinKey config) of None \<Rightarrow> [] | Some ids \<Rightarrow> ids);
          st = buildIndex sheets keyMappingIds
      in case joinType config of
           Outer \<Rightarrow> allKeySet st
         | Left \<Rightarrow>
             (case sheets of
                [] \<Rightarrow> []
              | sheet0 # _ \<Rightarrow>
                  arrayFromSet (List.map_filter (\<lambda>r. leftKey sheet0 r keyMappingIds) (rows sheet0)))
         | Inner \<Rightarrow>
             filter (\<lambda>key. case map_of (keyMap st) key of
                              None \<Rightarrow> False
                            | Some entry \<Rightarrow> length entry = length sheets)
               (allKeySet st))"

text \<open>The value of one field of a joined row: sheets in index order, then candidates.\<close>

fun slotValue :: "SheetData \<Rightarrow> row \<Rightarrow> string list \<Rightarrow> jsval" where
  "slotValue currentSheet sheetRow [] = Str []"
| "slotValue currentSheet sheetRow (mId # rest) =
     (case parseMappingId mId of
        (fName, sName, header) \<Rightarrow>
          if fName = fileName currentSheet \<and> sName = sheetName currentSheet
             \<and> getProp sheetRow header \<noteq> Undefined \<and> getProp sheetRow header \<noteq> Null
             \<and> getProp sheetRow header \<noteq> Str []
          then getProp sheetRow header
          else slotValue currentSheet sheetRow rest)"

fun joinValue :: "SheetData list \<Rightarrow> slots \<Rightarrow> string list \<Rightarrow> nat list \<Rightarrow> jsval" where
  "joinValue sheets entry sourceMappingIds [] = Str []"
| "joinValue sheets entry sourceMappingIds (i # is) =
     (let val = (case map_of entry i of
                   None \<Rightarrow> Str []
                 | Some sheetRow \<Rightarrow> slotValue (sheets ! i) sheetRow sourceMappingIds)
      in if val \<noteq> Str [] then val else joinValue sheets entry sourceMappingIds is)"

definition joinRow :: "SheetData list \<Rightarrow> mappings \<Rightarrow> (string \<times> slots) list \<Rightarrow> nat \<Rightarrow> string \<Rightarrow> row" where
  "joinRow sheets mappings km idx k =
     (let newRow0 = [''id'' \<mapsto> Str (''joined-'' @ k @ ''-'' @ digitsOf idx)];
          entry = (case map_of km k of None \<Rightarrow> [] | Some e \<Rightarrow> e);
          newRow1 = fold (\<lambda>(targetField, sourceMappingIds) newRow.
                            newRow(targetField \<mapsto>
                              cleanAndFormatValue
                                (joinValue sheets entry sourceMappingIds [0..<length sheets])))
                      mappings newRow0
      in case entry of
           [] \<Rightarrow> newRow1(''_sourceFile'' \<mapsto> Str ''Joined'', ''_sourceSheet'' \<mapsto> Str ''Joined'')
         | (i, firstSource) # _ \<Rightarrow>
             newRow1(''_sourceFile'' \<mapsto> getProp firstSource ''_srcFile'',
                     ''_sourceSheet'' \<mapsto> getProp firstSource ''_srcSheet''))"

definition joinData :: "SheetData list \<Rightarrow> mappings \<Rightarrow> 'a MergeConfig_scheme \<Rightarrow> row list" where
  "joinData sheets mappings config =
     (let keyMappingIds = (case map_of mappings (joinKey config) of None \<Rightarrow> [] | Some ids \<Rightarrow> ids);
          st = buildIndex sheets keyMappingIds
      in map (\<lambda>(idx, k). joinRow sheets mappings (keyMap st) idx k)
           (enumerate 0 (finalKeys sheets mappings config)))"

definition mergeData :: "SheetData list \<Rightarrow> mappings \<Rightarrow> MergeConfig option \<Rightarrow> row list" where
  "mergeData sheets mappings config =
     (case config of
        None \<Rightarrow> stackData sheets mappings
      | Some c \<Rightarrow> if mergeMethod c = Join then joinData sheets mappings c else stackData sheets mappings)"

section \<open>Filter and split\<close>

text \<open>
  \<^verbatim>\<open>executeSplit\<close> of the master table. The notifications carry fixed texts, which are
  named here instead of spelled out. \<^verbatim>\<open>String.prototype.toLowerCase\<close> follows the
  Unicode case tables, which are not part of this development: it is the parameter
  \<open>toLowerCase\<close> of the filter, and the properties proved below hold whatever function it
  is. \<open>asciiLower\<close>, which lowers the letters A to Z and agrees with it on ASCII strings,
  is the instance used in the examples.
\<close>

datatype FilterOperator =
  Eq | Neq | Gt | Lt | Gte | Lte | Contains | Not_contains | Starts_with | Ends_with

datatype ColumnType = TString | TNumber

datatype ToastType = Success | Error | Info

datatype message = SelectFieldAndValue | NothingAfterFilter | SplitExported | FieldNameExists

record FieldDefinition =
  key :: string
  label :: string
  fieldType :: ColumnType \<comment> \<open>the property \<^verbatim>\<open>type\<close>\<close>

definition asciiLowerChar :: "char \<Rightarrow> char" where
  "asciiLowerChar c =
     (let n = (of_char c :: nat) in if 65 \<le> n \<and> n \<le> 90 then char_of (n + 32) else c)"

definition asciiLower :: "string \<Rightarrow> string" where
  "asciiLower s = map asciiLowerChar s"

fun includesStr :: "string \<Rightarrow> string \<Rightarrow> bool" where
  "includesStr [] p = (p = [])"
| "includesStr (c # s) p = (isPrefixOf p (c # s) \<or> includesStr s p)"

definition startsWith :: "string \<Rightarrow> string \<Rightarrow> bool" where
  "startsWith s p = isPrefixOf p s"

definition endsWith :: "string \<Rightarrow> string \<Rightarrow> bool" where
  "endsWith s p = isPrefixOf (rev p) (rev s)"

text \<open>Comparison of numbers that are not NaN (\<^verbatim>\<open>===\<close> and \<^verbatim>\<open><\<close>).\<close>

fun numLess :: "jsnum \<Rightarrow> jsnum \<Rightarrow> bool" where
  "numLess NaN _ = False"
| "numLess _ NaN = False"
| "numLess (Fin a) (Fin b) = (a < b)"
| "numLess (Fin a) PosInf = True"
| "numLess (Fin a) NegInf = False"
| "numLess PosInf _ = False"
| "numLess NegInf NegInf = False"
| "numLess NegInf _ = True"

definition numEq :: "jsnum \<Rightarrow> jsnum \<Rightarrow> bool" where
  "numEq a b = (a \<noteq> NaN \<and> b \<noteq> NaN \<and> a = b)"

text \<open>The callback of \<^verbatim>\<open>currentData.filter\<close>, applied to the cell \<^verbatim>\<open>row[splitField]\<close>.\<close>

definition splitMatches ::
  "(string \<Rightarrow> string) \<Rightarrow> ColumnType \<Rightarrow> FilterOperator \<Rightarrow> string \<Rightarrow> jsval \<Rightarrow> bool" where
  "splitMatches toLowerCase splitType splitOperator splitValue cellValue =
     (let compareValue = splitValue;
          strCell = toLowerCase (jsString (if cellValue = Undefined \<or> cellValue = Null
                                           then Str [] else cellValue));
          strCompare = toLowerCase compareValue
      in if splitType = TNumber then
           (let numCell = parseFloat (jsString cellValue);
                numCompare = parseFloat compareValue
            in if numCell = NaN \<or> numCompare = NaN then False
               else (case splitOperator of
                       Eq \<Rightarrow> numEq numCell numCompare
                     | Neq \<Rightarrow> \<not> numEq numCell numCompare
                     | Gt \<Rightarrow> numLess numCompare numCell
                     | Lt \<Rightarrow> numLess numCell numCompare
                     | Gte \<Rightarrow> numLess numCompare numCell \<or> numEq numCell numCompare
                     | Lte \<Rightarrow> numLess numCell numCompare \<or> numEq numCell numCompare
                     | _ \<Rightarrow> False))
         else
           (case splitOperator of
              Eq \<Rightarrow> strCell = strCompare
            | Neq \<Rightarrow> strCell \<noteq> strCompare
            | Contains \<Rightarrow> includesStr strCell strCompare
            | Not_contains \<Rightarrow> \<not> includesStr strCell strCompare
            | Starts_with \<Rightarrow> startsWith strCell strCompare
            | Ends_with \<Rightarrow> endsWith strCell strCompare
            | _ \<Rightarrow> False))"

definition splitFilter ::
  "(string \<Rightarrow> string) \<Rightarrow> row list \<Rightarrow> string \<Rightarrow> ColumnType \<Rightarrow> FilterOperator \<Rightarrow> string
     \<Rightarrow> row list" where
  "splitFilter toLowerCase currentData splitField splitType splitOperator splitValue =
     filter (\<lambda>r. splitMatches toLowerCase splitType splitOperator splitValue (getProp r splitField))
       currentData"

definition opLabel :: "FilterOperator \<Rightarrow> string" where
  "opLabel op =
     (case op of
        Eq \<Rightarrow> ''Equals'' | Neq \<Rightarrow> ''NotEq'' | Gt \<Rightarrow> ''Gt'' | Lt \<Rightarrow> ''Lt''
      | Gte \<Rightarrow> ''Gte'' | Lte \<Rightarrow> ''Lte'' | Contains \<Rightarrow> ''Has'' | Not_contains \<Rightarrow> ''NotHas''
      | Starts_with \<Rightarrow> ''Start'' | Ends_with \<Rightarrow> ''End'')"

definition exportRow :: "FieldDefinition list \<Rightarrow> row \<Rightarrow> row" where
  "exportRow visibleFields r =
     fold (\<lambda>f cleanRow. cleanRow(label f \<mapsto> getProp r (key f))) visibleFields Map.empty"

text \<open>
  The outcome of \<^verbatim>\<open>executeSplit\<close>: the notification shown, the rows that passed the
  filter, and the exported table with its file name when there is an export.
\<close>

record splitOutcome =
  notified :: "message \<times> ToastType"
  filtered :: "row list"
  exported :: "(row list \<times> string) option"

definition executeSplit ::
  "(string \<Rightarrow> string) \<Rightarrow> row list \<Rightarrow> FieldDefinition list \<Rightarrow> string \<Rightarrow> ColumnType
     \<Rightarrow> FilterOperator \<Rightarrow> string \<Rightarrow> splitOutcome" where
  "executeSplit toLowerCase currentData visibleFields splitField splitType splitOperator splitValue =
     (if splitField = [] \<or> splitValue = [] then
        \<lparr>notified = (SelectFieldAndValue, Error), filtered = [], exported = None\<rparr>
      else
        (let rs = splitFilter toLowerCase currentData splitField splitType splitOperator splitValue
         in if length rs = 0 then
              \<lparr>notified = (NothingAfterFilter, Error), filtered = rs, exported = None\<rparr>
            else
              \<lparr>notified = (SplitExported, Success), filtered = rs,
               exported = Some (map (exportRow visibleFields) rs,
                                ''Split_'' @ splitField @ ''_'' @ opLabel splitOperator @ ''_'' @ splitValue)\<rparr>))"

section \<open>Field operations of the column mapper\<close>

text \<open>
  The state variables \<^verbatim>\<open>fields\<close>, \<^verbatim>\<open>mapping\<close>, \<^verbatim>\<open>joinKey\<close> and
  \<^verbatim>\<open>newFieldName\<close> of the column mapper, and the notifications sent so far. A property of
  \<^verbatim>\<open>mapping\<close> can hold \<^verbatim>\<open>undefined\<close> (written \<open>None\<close>): a rename stores the
  old entry's value under the new name even when there was no old entry.
\<close>

record mapperState =
  stFields :: "FieldDefinition list"
  stMapping :: "(string \<times> string list option) list"
  stJoinKey :: string
  stNewFieldName :: string
  stNotified :: "(message \<times> ToastType) list"

definition objDelete :: "string \<Rightarrow> (string \<times> 'v) list \<Rightarrow> (string \<times> 'v) list" where
  "objDelete k m = filter (\<lambda>(a, b). a \<noteq> k) m"

definition handleAddField :: "mapperState \<Rightarrow> mapperState" where
  "handleAddField st =
     (if trim (stNewFieldName st) = [] then st
      else
        (let k = trim (stNewFieldName st)
         in if \<exists>f\<in>set (stFields st). key f = k then
              st\<lparr>stNotified := stNotified st @ [(FieldNameExists, Error)]\<rparr>
            else
              st\<lparr>stFields := stFields st @ [\<lparr>key = k, label = k, fieldType = TString\<rparr>],
                 stMapping := mapSet k (Some []) (stMapping st),
                 stNewFieldName := []\<rparr>))"

definition handleRemoveField :: "string \<Rightarrow> mapperState \<Rightarrow> mapperState" where
  "handleRemoveField k st =
     st\<lparr>stFields := filter (\<lambda>f. key f \<noteq> k) (stFields st),
        stMapping := objDelete k (stMapping st)\<rparr>"

definition handleRenameField :: "string \<Rightarrow> string \<Rightarrow> mapperState \<Rightarrow> mapperState" where
  "handleRenameField oldKey newLabel st =
     (if trim newLabel = [] \<or> newLabel = oldKey then st
      else
        st\<lparr>stFields := map (\<lambda>f. if key f = oldKey then f\<lparr>label := newLabel, key := newLabel\<rparr> else f)
                         (stFields st),
           stMapping := (let data = (case map_of (stMapping st) oldKey of None \<Rightarrow> None | Some d \<Rightarrow> d)
                         in mapSet newLabel data (objDelete oldKey (stMapping st))),
           stJoinKey := (if stJoinKey st = oldKey then newLabel else stJoinKey st)\<rparr>)"

section \<open>Notions used to state the properties\<close>

text \<open>A cell holds a value when it is not undefined, not null and not the empty string.\<close>

definition hasValue :: "jsval \<Rightarrow> bool" where
  "hasValue v = (v \<noteq> Undefined \<and> v \<noteq> Null \<and> v \<noteq> Str [])"

text \<open>
  The header under which a candidate id is looked up in the rows of a sheet by the stack
  merge, if the candidate applies to that sheet at all.
\<close>

definition candidateHeader :: "SheetData \<Rightarrow> string \<Rightarrow> string option" where
  "candidateHeader sheet mId =
     (if \<not> includesDelim mId then Some mId
      else (case parseMappingId mId of
              (fName, sName, header) \<Rightarrow>
                if fName = fileName sheet \<and> sName = sheetName sheet then Some header else None))"

text \<open>
  The position, in the output of the stack merge, of the first row made from sheet \<open>i\<close>:
  the number of rows of the sheets before it.
\<close>

definition stackOffset :: "SheetData list \<Rightarrow> nat \<Rightarrow> nat" where
  "stackOffset sheets i = sum_list (map (\<lambda>s. length (rows s)) (take i sheets))"

text \<open>The keys derived from the rows of one sheet, in row order.\<close>

definition sheetKeys :: "string list \<Rightarrow> SheetData \<Rightarrow> string list" where
  "sheetKeys keyMappingIds sheet = List.map_filter (\<lambda>r. deriveKey sheet r keyMappingIds) (rows sheet)"

definition keyCandidates :: "mappings \<Rightarrow> 'a MergeConfig_scheme \<Rightarrow> string list" where
  "keyCandidates mappings config =
     (case map_of mappings (joinKey config) of None \<Rightarrow> [] | Some ids \<Rightarrow> ids)"

text \<open>The slot object stored for a key (\<^verbatim>\<open>keyMap.get(k) || {}\<close>).\<close>

definition slotsOf :: "keyIndex \<Rightarrow> string \<Rightarrow> slots" where
  "slotsOf st k = (case map_of (keyMap st) k of None \<Rightarrow> [] | Some e \<Rightarrow> e)"

text \<open>
  The invariant of the key index while the sheets are scanned. \<open>E\<close> is the set of pairs
  (key, sheet index) met so far: the key set holds exactly the keys met, the slot object of
  a key has exactly the indices of the sheets where the key was met, in ascending order,
  and the row in slot \<open>i\<close> is a row of sheet \<open>i\<close> with that key, tagged with the
  sheet's identity.
\<close>

definition indexInv :: "string list \<Rightarrow> SheetData list \<Rightarrow> (string \<times> nat) set \<Rightarrow> keyIndex \<Rightarrow> bool" where
  "indexInv ids sheets E st =
     (allKeySet st = map fst (keyMap st)
      \<and> distinct (allKeySet st)
      \<and> set (allKeySet st) = fst ` E
      \<and> (\<forall>k. set (map fst (slotsOf st k)) = {i. (k, i) \<in> E})
      \<and> (\<forall>k. sorted_wrt (<) (map fst (slotsOf st k)))
      \<and> (\<forall>k i q. (i, q) \<in> set (slotsOf st k) \<longrightarrow>
            (\<exists>r. q = sourceRow (sheets ! i) r \<and> deriveKey (sheets ! i) r ids = Some k)))"

text \<open>The indices of the sheets that hold a key, in ascending order.\<close>

definition holders :: "string list \<Rightarrow> SheetData list \<Rightarrow> string \<Rightarrow> nat list" where
  "holders ids sheets k = filter (\<lambda>i. k \<in> set (sheetKeys ids (sheets ! i))) [0..<length sheets]"

section \<open>Properties of the value normalizer\<close>

lemma isDigit_digitChar: "isDigit (digitChar k)"
  unfolding isDigit_def digitChar_def by (rule nth_mem) simp

lemma digitsOf_nonempty: "digitsOf n \<noteq> []"
  by (subst digitsOf.simps) simp

lemma digitsOf_digits: "c \<in> set (digitsOf n) \<Longrightarrow> isDigit c"
proof (induction n arbitrary: c rule: digitsOf.induct)
  case (1 n)
  show ?case
  proof (cases "n < 10")
    case True
    then show ?thesis using 1(2) by (subst (asm) digitsOf.simps) (simp add: isDigit_digitChar)
  next
    case False
    have "isDigit (digitChar (n mod 10))" by (rule isDigit_digitChar)
    then show ?thesis using False 1 by (subst (asm) (2) digitsOf.simps) auto
  qed
qed

lemma padLeft_nonempty: "s \<noteq> [] \<Longrightarrow> padLeft n s \<noteq> []"
  by (simp add: padLeft_def)

lemma isDigit_zero: "isDigit CHR ''0''"
  by (simp add: isDigit_def)

lemma padLeft_digits: "(\<And>c. c \<in> set s \<Longrightarrow> isDigit c) \<Longrightarrow> c \<in> set (padLeft n s) \<Longrightarrow> isDigit c"
  by (auto simp: padLeft_def isDigit_zero)

lemma trim_idem: "trim (trim s) = trim s"
  unfolding trim_def
  by (metis (no_types, lifting) ext Nil_is_rev_conv dropWhile_eq_Nil_conv
    dropWhile_eq_self_iff dropWhile_last hd_dropWhile last_rev
    rev_swap)

lemma trim_id: "s \<noteq> [] \<Longrightarrow> \<not> isWhiteSpace (hd s) \<Longrightarrow> \<not> isWhiteSpace (last s) \<Longrightarrow> trim s = s"
  unfolding trim_def
  by (metis dropWhile_eq_self_iff hd_rev rev_is_Nil_conv rev_rev_ident)

lemma digit_not_space: "isDigit c \<Longrightarrow> \<not> isWhiteSpace c"
  by (auto simp: isDigit_def isWhiteSpace_def)

lemma dropCurrency_keep:
  "c \<noteq> CHR ''$'' \<Longrightarrow> c \<noteq> CHR 0xE2 \<Longrightarrow> c \<noteq> CHR 0xC2 \<Longrightarrow> dropCurrency (c # s) = c # s"
  by (simp add: dropCurrency_def currencySymbols_def isPrefixOf_def)

lemma dropCurrency_digit: "isDigit c \<Longrightarrow> dropCurrency (c # s) = c # s"
  by (rule dropCurrency_keep) (auto simp: isDigit_def)

lemma noMatch_digits_dash:
  assumes "ds \<noteq> []" "\<And>c. c \<in> set ds \<Longrightarrow> isDigit c"
  shows "\<not> matchesNumberPattern (ds @ CHR ''-'' # rest)"
proof -
  obtain c cs where ds: "ds = c # cs" using assms(1) by (cases ds) auto
  have c: "isDigit c" using assms(2) ds by simp
  have 1: "dropCurrency (ds @ CHR ''-'' # rest) = ds @ CHR ''-'' # rest"
    using dropCurrency_digit[OF c] ds by simp
  have 2: "dropWhile isWhiteSpace (ds @ CHR ''-'' # rest) = ds @ CHR ''-'' # rest"
    using digit_not_space[OF c] ds by simp
  have 3: "dropSign (ds @ CHR ''-'' # rest) = ds @ CHR ''-'' # rest"
    using c ds by (auto simp: dropSign_def isDigit_def)
  have 4: "dropWhile isDigitOrComma (ds @ CHR ''-'' # rest) = CHR ''-'' # rest"
    using assms(2) by (simp add: dropWhile_append3 isDigitOrComma_def isDigit_def)
  show ?thesis
    unfolding matchesNumberPattern_def 1 2 3 Let_def 4
    by (simp add: dropFraction_def dropPercent_def)
qed

lemma noMatch_dash_digits_dash:
  assumes "ds \<noteq> []" "\<And>c. c \<in> set ds \<Longrightarrow> isDigit c"
  shows "\<not> matchesNumberPattern (CHR ''-'' # ds @ CHR ''-'' # rest)"
proof -
  have 1: "dropCurrency (CHR ''-'' # ds @ CHR ''-'' # rest) = CHR ''-'' # ds @ CHR ''-'' # rest"
    by (rule dropCurrency_keep) simp_all
  have 2: "dropWhile isWhiteSpace (CHR ''-'' # ds @ CHR ''-'' # rest) = CHR ''-'' # ds @ CHR ''-'' # rest"
    by (simp add: isWhiteSpace_def)
  have 3: "dropSign (CHR ''-'' # ds @ CHR ''-'' # rest) = ds @ CHR ''-'' # rest"
    by (simp add: dropSign_def)
  have 4: "dropWhile isDigitOrComma (ds @ CHR ''-'' # rest) = CHR ''-'' # rest"
    using assms(2) by (simp add: dropWhile_append3 isDigitOrComma_def isDigit_def)
  show ?thesis
    unfolding matchesNumberPattern_def 1 2 3 Let_def 4
    by (simp add: dropFraction_def dropPercent_def)
qed

lemma noMatch_plus: "\<not> matchesNumberPattern (CHR ''+'' # rest)"
proof -
  have 1: "dropCurrency (CHR ''+'' # rest) = CHR ''+'' # rest"
    by (rule dropCurrency_keep) simp_all
  show ?thesis
    by (simp add: matchesNumberPattern_def 1 isWhiteSpace_def dropSign_def isDigitOrComma_def isDigit_def)
qed


lemma isoYear_cases:
  "(\<exists>ds. ds \<noteq> [] \<and> (\<forall>c\<in>set ds. isDigit c) \<and>
      (isoYear y = ds \<or> isoYear y = CHR ''-'' # ds \<or> isoYear y = CHR ''+'' # ds))"
proof -
  have a: "padLeft n (digitsOf k) \<noteq> []" for n k
    by (simp add: padLeft_nonempty digitsOf_nonempty)
  have b: "\<forall>c\<in>set (padLeft n (digitsOf k)). isDigit c" for n k
    using padLeft_digits digitsOf_digits by blast
  show ?thesis
  proof (cases "0 \<le> y \<and> y \<le> 9999")
    case True
    then have "isoYear y = padLeft 4 (digitsOf (nat y))" by (simp add: isoYear_def)
    then show ?thesis using a b by blast
  next
    case False
    then have "isoYear y = CHR ''-'' # padLeft 6 (digitsOf (nat \<bar>y\<bar>))
             \<or> isoYear y = CHR ''+'' # padLeft 6 (digitsOf (nat \<bar>y\<bar>))"
      by (simp add: isoYear_def)
    then show ?thesis using a b by blast
  qed
qed

lemma isoDate_shape:
  "\<exists>Y M D. isoDate ms = Y @ CHR ''-'' # M @ CHR ''-'' # D \<and> Y = isoYear (fst (civilFromDays (ms div 86400000)))
     \<and> D \<noteq> [] \<and> (\<forall>c\<in>set D. isDigit c)"
proof -
  obtain y m d where c: "civilFromDays (ms div 86400000) = (y, m, d)"
    by (cases "civilFromDays (ms div 86400000)") auto
  have "padLeft 2 (digitsOf (nat d)) \<noteq> []"
    by (simp add: padLeft_nonempty digitsOf_nonempty)
  moreover have "\<forall>c\<in>set (padLeft 2 (digitsOf (nat d))). isDigit c"
    using padLeft_digits digitsOf_digits by blast
  ultimately show ?thesis unfolding isoDate_def formatDate_def c by auto
qed

lemma isoDate_nonempty: "isoDate ms \<noteq> []"
  using isoDate_shape[of ms] by auto

lemma isoDate_noMatch: "\<not> matchesNumberPattern (isoDate ms)"
proof -
  obtain Y M D where s: "isoDate ms = Y @ CHR ''-'' # M @ CHR ''-'' # D"
    and Y: "Y = isoYear (fst (civilFromDays (ms div 86400000)))"
    using isoDate_shape[of ms] by blast
  obtain ds where ds: "ds \<noteq> []" "\<And>c. c \<in> set ds \<Longrightarrow> isDigit c"
    and alt: "Y = ds \<or> Y = CHR ''-'' # ds \<or> Y = CHR ''+'' # ds"
    using isoYear_cases[of "fst (civilFromDays (ms div 86400000))"] Y by blast
  from alt show ?thesis
  proof (elim disjE)
    assume "Y = ds"
    then show ?thesis using noMatch_digits_dash[OF ds] s by simp
  next
    assume "Y = CHR ''-'' # ds"
    then show ?thesis using noMatch_dash_digits_dash[OF ds] s by simp
  next
    assume "Y = CHR ''+'' # ds"
    then show ?thesis using noMatch_plus s by simp
  qed
qed

lemma isoDate_trim: "trim (isoDate ms) = isoDate ms"
proof -
  obtain Y M D where s: "isoDate ms = Y @ CHR ''-'' # M @ CHR ''-'' # D"
    and Y: "Y = isoYear (fst (civilFromDays (ms div 86400000)))"
    and D: "D \<noteq> []" "\<forall>c\<in>set D. isDigit c"
    using isoDate_shape[of ms] by blast
  obtain ds where ds: "ds \<noteq> []" "\<And>c. c \<in> set ds \<Longrightarrow> isDigit c"
    and alt: "Y = ds \<or> Y = CHR ''-'' # ds \<or> Y = CHR ''+'' # ds"
    using isoYear_cases[of "fst (civilFromDays (ms div 86400000))"] Y by blast
  have "isDigit (hd ds)" using ds by simp
  then have "\<not> isWhiteSpace (hd ds)" by (rule digit_not_space)
  then have h: "\<not> isWhiteSpace (hd (isoDate ms))"
    using alt ds(1) s by (auto simp: isWhiteSpace_def)
  have "last (isoDate ms) = last D" using s D by simp
  moreover have "isDigit (last D)" using D by simp
  ultimately have l: "\<not> isWhiteSpace (last (isoDate ms))" by (simp add: digit_not_space)
  show ?thesis using trim_id[OF isoDate_nonempty h l] .
qed

lemma cleanAndFormatValue_date: "cleanAndFormatValue (Str (isoDate ms)) = Str (isoDate ms)"
  by (simp add: cleanAndFormatValue_def isoDate_nonempty isoDate_trim isoDate_noMatch)

lemma cleanAndFormatValue_trimmed:
  assumes "\<not> matchesNumberPattern (trim s) \<or> parseFloat (keepNumericChars (trim s)) = NaN"
  shows "cleanAndFormatValue (Str (trim s)) = Str (trim s)"
  using assms by (auto simp: cleanAndFormatValue_def trim_idem Let_def)

lemma cleanAndFormatValue_Fin:
  "cleanAndFormatValue (Num (Fin r)) =
     (if 20000 < r \<and> r < 60000 then Str (excelDateToJSDate r) else Num (Fin r))"
  by (simp add: cleanAndFormatValue_def)

lemma excelDate_band: "20000 < r \<Longrightarrow> r < 60000 \<Longrightarrow>
   excelDateToJSDate r
     = isoDate (mathRound (roundDouble (roundDouble (roundDouble (r - 25569) * 86400) * 1000)))"
  by (simp add: excelDateToJSDate_def)


text \<open>
  C1 (as stated, refuted). The claim says that normalizing twice is the same as normalizing
  once for every raw value. The string \<^verbatim>\<open>"45292"\<close> is parsed to the number 45292 by
  the first pass, and the second pass decodes that number as a date serial.
\<close>

theorem normalize_not_idempotent:
  "cleanAndFormatValue (cleanAndFormatValue (Str ''45292'')) \<noteq> cleanAndFormatValue (Str ''45292'')"
proof -
  have a: "cleanAndFormatValue (Str ''45292'') = Num (Fin 45292)" by code_simp
  have b: "cleanAndFormatValue (Num (Fin 45292)) = Str ''2024-01-01''" by code_simp
  show ?thesis by (simp add: a b)
qed

text \<open>
  C1 (amended). For every raw cell value \<open>x\<close> (string, number, boolean, null or
  undefined), normalizing the normalized value gives it back exactly when the normalized
  value is not a number strictly between 20000 and 60000. So the normalizer is idempotent
  on every value except the strings that it parses to a number inside the date-serial
  band; on those the second pass yields a date string.
\<close>

theorem normalize_idempotent_iff:
  "cleanAndFormatValue (cleanAndFormatValue x) = cleanAndFormatValue x
     \<longleftrightarrow> \<not> isPotentialExcelDate (cleanAndFormatValue x)"
proof (cases x)
  case (Num n)
  show ?thesis
  proof (cases n)
    case (Fin r)
    show ?thesis
      unfolding Num Fin cleanAndFormatValue_Fin
      by (auto simp: excelDate_band cleanAndFormatValue_date cleanAndFormatValue_Fin)
  qed (simp_all add: Num cleanAndFormatValue_def)
next
  case (Str s)
  show ?thesis
  proof (cases "s \<noteq> [] \<and> matchesNumberPattern (trim s) \<and> parseFloat (keepNumericChars (trim s)) \<noteq> NaN")
    case True
    then have e: "cleanAndFormatValue x = Num (parseFloat (keepNumericChars (trim s)))"
      by (simp add: Str cleanAndFormatValue_def Let_def)
    show ?thesis unfolding e
      by (cases "parseFloat (keepNumericChars (trim s))")
         (auto simp: cleanAndFormatValue_Fin cleanAndFormatValue_def)
  next
    case False
    show ?thesis
    proof (cases "s = []")
      case True
      then show ?thesis by (simp add: Str cleanAndFormatValue_def)
    next
      case ne: False
      then have e: "cleanAndFormatValue x = Str (trim s)"
        using False by (auto simp: Str cleanAndFormatValue_def Let_def)
      show ?thesis unfolding e using cleanAndFormatValue_trimmed[of s] False ne by auto
    qed
  qed
qed (simp_all add: cleanAndFormatValue_def)


theorem normalize_idempotent_iff_witness:
  "\<not> isPotentialExcelDate (cleanAndFormatValue (Str ''$1,250.50''))
   \<and> cleanAndFormatValue (cleanAndFormatValue (Str ''$1,250.50''))
       = cleanAndFormatValue (Str ''$1,250.50'')"
proof -
  have e: "cleanAndFormatValue (Str ''$1,250.50'') = Num (Fin (2501 / 2))" by code_simp
  have h: "\<not> isPotentialExcelDate (cleanAndFormatValue (Str ''$1,250.50''))"
    unfolding e by simp
  show ?thesis using h normalize_idempotent_iff [of "Str ''$1,250.50''"] by simp
qed




text \<open>
  For a fractional serial the rounding of the products matters. The double
  51020.99999999421 (exactly 1753068211273529 / 34359738368) lies half a millisecond
  before midnight: the exact instant is on 2039-09-07, but the product computed in double
  arithmetic ends in .5 milliseconds, \<^verbatim>\<open>Math.round\<close> takes it to midnight, and the result
  is the next day.
\<close>

lemma fractional_serial_next_day:
  "excelDateToJSDate (1753068211273529 / 34359738368) = ''2039-09-08''"
  "isoDate \<lfloor>(1753068211273529 / 34359738368 - 25569) * 86400 * 1000 :: rat\<rfloor> = ''2039-09-07''"
  by code_simp+




section \<open>Properties of the header registry\<close>

lemma length_uniqueFrom: "length (uniqueFrom counts hs) = length hs"
  by (induction hs arbitrary: counts) (auto simp: Let_def split: option.splits)

lemma length_makeHeadersUnique: "length (makeHeadersUnique hs) = length hs"
  by (simp add: makeHeadersUnique_def length_uniqueFrom)

lemma uniqueFrom_nonempty: "h \<in> set (uniqueFrom counts hs) \<Longrightarrow> h \<noteq> []"
  by (induction hs arbitrary: counts) (auto simp: Let_def split: option.splits if_splits)

lemma makeHeadersUnique_first:
  "makeHeadersUnique (h # hs) ! 0 = (if trim (if h = [] then ''Column'' else h) = [] then ''Column'' else trim (if h = [] then ''Column'' else h))"
  by (simp add: makeHeadersUnique_def Let_def)

text \<open>
  C5 (the code at the failing input). The claim promises pairwise distinct names. For the
  headers \<^verbatim>\<open>["A", "A", "A_1"]\<close> the second \<^verbatim>\<open>A\<close> is suffixed to \<^verbatim>\<open>A_1\<close>,
  and the third header, seen for the first time, is returned unsuffixed as \<^verbatim>\<open>A_1\<close> too.
\<close>

theorem makeHeadersUnique_collision:
  "makeHeadersUnique [''A'', ''A'', ''A_1''] = [''A'', ''A_1'', ''A_1'']
   \<and> \<not> distinct (makeHeadersUnique [''A'', ''A'', ''A_1''])"
proof -
  have "makeHeadersUnique [''A'', ''A'', ''A_1''] = [''A'', ''A_1'', ''A_1'']" by code_simp
  then show ?thesis by simp
qed

section \<open>Properties of the stack merge\<close>

lemma fold_append_concat: "fold (\<lambda>x acc. acc @ f x) xs a = a @ concat (map f xs)"
  by (induction xs arbitrary: a) simp_all

lemma stackData_concat:
  "stackData sheets mappings =
     concat (map (\<lambda>sheet. map (\<lambda>(index, r). stackRow sheet mappings index r) (enumerate 0 (rows sheet))) sheets)"
  by (simp add: stackData_def fold_append_concat)

lemma length_stackData:
  "length (stackData sheets mappings) = sum_list (map (\<lambda>sheet. length (rows sheet)) sheets)"
  by (simp add: stackData_concat length_concat comp_def)

lemma fold_assign_other:
  "k \<notin> fst ` set ms \<Longrightarrow> fold (\<lambda>(t, ids) m. m(t \<mapsto> g ids)) ms m0 k = m0 k"
  by (induction ms arbitrary: m0) auto

lemma fold_assign_field:
  "distinct (map fst ms) \<Longrightarrow> (t, ids) \<in> set ms \<Longrightarrow> fold (\<lambda>(t, ids) m. m(t \<mapsto> g ids)) ms m0 t = Some (g ids)"
proof (induction ms arbitrary: m0)
  case Nil
  then show ?case by simp
next
  case (Cons a ms)
  obtain t' ids' where a: "a = (t', ids')" by (cases a)
  show ?case
  proof (cases "(t, ids) = a")
    case True
    have "distinct (map fst ((t, ids) # ms))" using Cons.prems(1) unfolding True .
    then have "t \<notin> fst ` set ms" by simp
    then have "fold (\<lambda>(t, ids) m. m(t \<mapsto> g ids)) ms (m0(t \<mapsto> g ids)) t = (m0(t \<mapsto> g ids)) t"
      by (rule fold_assign_other)
    then show ?thesis unfolding True[symmetric] by (simp only: fold_simps comp_apply case_prod_conv fun_upd_same)
  next
    case False
    then have "(t, ids) \<in> set ms" using Cons.prems(2) by simp
    moreover have "distinct (map fst ms)" using Cons.prems(1) by simp
    ultimately show ?thesis using Cons.IH by simp
  qed
qed

lemma stackRow_sourceFile: "stackRow sheet mappings index r ''_sourceFile'' = Some (Str (fileName sheet))"
  by (simp add: stackRow_def Let_def)

lemma stackRow_sourceSheet: "stackRow sheet mappings index r ''_sourceSheet'' = Some (Str (sheetName sheet))"
  by (simp add: stackRow_def Let_def)

lemma stackRow_id:
  "''id'' \<notin> fst ` set mappings \<Longrightarrow>
   stackRow sheet mappings index r ''id'' = Some (Str (fileName sheet @ ''-'' @ sheetName sheet @ ''-'' @ digitsOf index))"
  by (simp add: stackRow_def Let_def fold_assign_other)

lemma stackRow_field:
  "distinct (map fst mappings) \<Longrightarrow> (field, ids) \<in> set mappings \<Longrightarrow>
   field \<noteq> ''_sourceFile'' \<Longrightarrow> field \<noteq> ''_sourceSheet'' \<Longrightarrow>
   stackRow sheet mappings index r field = Some (cleanAndFormatValue (stackValue sheet r ids))"
  by (simp add: stackRow_def Let_def fold_assign_field)

lemma getProp_hasValue: "hasValue (getProp r h) \<longleftrightarrow> (\<exists>v. r h = Some v \<and> hasValue v)"
  by (auto simp: getProp_def hasValue_def split: option.splits)

lemma stackValue_bare:
  "\<not> includesDelim mId \<Longrightarrow>
   stackValue sheet r (mId # rest) = (if hasValue (getProp r mId) then getProp r mId else stackValue sheet r rest)"
  by (auto simp: getProp_def hasValue_def split: option.splits prod.splits)

lemma stackValue_qualified:
  "includesDelim mId \<Longrightarrow>
   stackValue sheet r (mId # rest) =
     (case parseMappingId mId of
        (fName, sName, header) \<Rightarrow>
          if fName = fileName sheet \<and> sName = sheetName sheet \<and> hasValue (getProp r header)
          then getProp r header else stackValue sheet r rest)"
  by (auto simp: getProp_def hasValue_def split: option.splits prod.splits)

lemma stackValue_find:
  "stackValue sheet r ids =
     (case find (\<lambda>h. hasValue (getProp r h)) (List.map_filter (candidateHeader sheet) ids) of
        None \<Rightarrow> Str []
      | Some h \<Rightarrow> getProp r h)"
proof (induction ids)
  case Nil
  then show ?case by (simp add: map_filter_simps)
next
  case (Cons mId ids)
  obtain fName sName header where p: "parseMappingId mId = (fName, sName, header)"
    by (cases "parseMappingId mId") auto
  show ?case
  proof (cases "includesDelim mId")
    case True
    have c: "candidateHeader sheet mId =
        (if fName = fileName sheet \<and> sName = sheetName sheet then Some header else None)"
      using True p by (simp add: candidateHeader_def)
    show ?thesis
      unfolding stackValue_qualified[OF True] p Cons.IH map_filter_simps c
      by simp
  next
    case False
    have c: "candidateHeader sheet mId = Some mId"
      using False by (simp add: candidateHeader_def)
    show ?thesis
      unfolding stackValue_bare[OF False] Cons.IH map_filter_simps c
      by simp
  qed
qed

lemma stackValue_resolveCandidates:
  "(\<And>c. c \<in> set ids \<Longrightarrow> includesDelim c) \<Longrightarrow> stackValue sheet r ids = resolveCandidates sheet r ids"
proof (induction ids)
  case Nil
  then show ?case by simp
next
  case (Cons mId ids)
  have i: "includesDelim mId" using Cons.prems by simp
  have "stackValue sheet r ids = resolveCandidates sheet r ids" using Cons by simp
  then show ?case
    by (simp only: stackValue_qualified[OF i]) (auto simp: hasValue_def split: prod.splits)
qed

lemma mergeData_vertical:
  "mergeMethod c = Vertical \<Longrightarrow> mergeData sheets mappings (Some c) = stackData sheets mappings"
  by (simp add: mergeData_def)

text \<open>
  C6 (as stated, refuted). The claim gives every field the value
  \<open>normalize(resolveValue(mapping, field, sheet, row))\<close>, where the resolver of the
  specification looks only at candidates that name the row's sheet. With the candidate
  \<^verbatim>\<open>"Name"\<close> (no delimiter) the stack merge takes the value of the column
  \<^verbatim>\<open>Name\<close>, while the resolver of the specification skips the candidate.
\<close>

theorem stack_value_not_resolveValue:
  "(stackData
      [\<lparr>fileName = ''a.xlsx'', sheetName = ''S'', headers = [''Name''],
        rows = [[''Name'' \<mapsto> Str ''x'']]\<rparr>]
      [(''F'', [''Name''])] ! 0) ''F''
   \<noteq> Some (cleanAndFormatValue
        (resolveValue [(''F'', [''Name''])] ''F''
           \<lparr>fileName = ''a.xlsx'', sheetName = ''S'', headers = [''Name''],
             rows = [[''Name'' \<mapsto> Str ''x'']]\<rparr>
           [''Name'' \<mapsto> Str ''x'']))"
proof -
  have a: "(stackData
      [\<lparr>fileName = ''a.xlsx'', sheetName = ''S'', headers = [''Name''],
        rows = [[''Name'' \<mapsto> Str ''x'']]\<rparr>]
      [(''F'', [''Name''])] ! 0) ''F'' = Some (Str ''x'')"
    by code_simp
  have b: "cleanAndFormatValue
        (resolveValue [(''F'', [''Name''])] ''F''
           \<lparr>fileName = ''a.xlsx'', sheetName = ''S'', headers = [''Name''],
             rows = [[''Name'' \<mapsto> Str ''x'']]\<rparr>
           [''Name'' \<mapsto> Str ''x'']) = Str []"
    by code_simp
  show ?thesis unfolding a b by simp
qed

text \<open>
  C6 (amended). For every list of sheets and every mapping (an object, so its field keys
  are distinct), the stack merge outputs exactly the sum over all sheets of their row
  counts, concatenated in sheet order, one row per source row. Every output row has
  \<open>_sourceFile\<close> and \<open>_sourceSheet\<close> set to its sheet's identity; its \<open>id\<close> is
  fileName-sheetName-index when no field is keyed \<open>id\<close>; and every field other than
  \<open>_sourceFile\<close> and \<open>_sourceSheet\<close> holds the normalized first value that is defined,
  non-null and non-empty among the field's candidates that either name the row's sheet or
  contain no \<open>::\<close> delimiter (a bare header applies to every sheet). When all candidates of
  the field contain the delimiter this is \<open>normalize(resolveValue(mapping, field, sheet, row))\<close>.
  Stacking never deduplicates: the merge with method vertical is the stack merge whatever
  the removeDuplicates flag, the join key and the join type are.
\<close>

theorem stack_merge:
  "length (stackData sheets mappings) = sum_list (map (\<lambda>sheet. length (rows sheet)) sheets)
   \<and> stackData sheets mappings =
       concat (map (\<lambda>sheet. map (\<lambda>(index, r). stackRow sheet mappings index r)
                               (enumerate 0 (rows sheet))) sheets)
   \<and> stackRow sheet mappings index r ''_sourceFile'' = Some (Str (fileName sheet))
   \<and> stackRow sheet mappings index r ''_sourceSheet'' = Some (Str (sheetName sheet))
   \<and> (''id'' \<notin> fst ` set mappings \<longrightarrow>
        stackRow sheet mappings index r ''id''
          = Some (Str (fileName sheet @ ''-'' @ sheetName sheet @ ''-'' @ digitsOf index)))
   \<and> (distinct (map fst mappings) \<and> (field, ids) \<in> set mappings
        \<and> field \<noteq> ''_sourceFile'' \<and> field \<noteq> ''_sourceSheet'' \<longrightarrow>
        stackRow sheet mappings index r field
          = Some (cleanAndFormatValue
              (case find (\<lambda>h. hasValue (getProp r h)) (List.map_filter (candidateHeader sheet) ids) of
                 None \<Rightarrow> Str []
               | Some h \<Rightarrow> getProp r h))
        \<and> ((\<forall>c\<in>set ids. includesDelim c) \<longrightarrow>
             stackRow sheet mappings index r field
               = Some (cleanAndFormatValue (resolveValue mappings field sheet r))))
   \<and> (mergeMethod c = Vertical \<longrightarrow> mergeData sheets mappings (Some c) = stackData sheets mappings)
   \<and> mergeData sheets mappings None = stackData sheets mappings"
proof (intro conjI impI)
  show "length (stackData sheets mappings) = sum_list (map (\<lambda>sheet. length (rows sheet)) sheets)"
    by (rule length_stackData)
  show "stackData sheets mappings =
       concat (map (\<lambda>sheet. map (\<lambda>(index, r). stackRow sheet mappings index r)
                               (enumerate 0 (rows sheet))) sheets)"
    by (rule stackData_concat)
  show "stackRow sheet mappings index r ''_sourceFile'' = Some (Str (fileName sheet))"
    by (rule stackRow_sourceFile)
  show "stackRow sheet mappings index r ''_sourceSheet'' = Some (Str (sheetName sheet))"
    by (rule stackRow_sourceSheet)
  show "mergeData sheets mappings None = stackData sheets mappings"
    by (simp add: mergeData_def)
next
  assume "''id'' \<notin> fst ` set mappings"
  then show "stackRow sheet mappings index r ''id''
          = Some (Str (fileName sheet @ ''-'' @ sheetName sheet @ ''-'' @ digitsOf index))"
    by (rule stackRow_id)
next
  assume h: "distinct (map fst mappings) \<and> (field, ids) \<in> set mappings
        \<and> field \<noteq> ''_sourceFile'' \<and> field \<noteq> ''_sourceSheet''"
  then have f: "stackRow sheet mappings index r field = Some (cleanAndFormatValue (stackValue sheet r ids))"
    by (simp add: stackRow_field)
  then show "stackRow sheet mappings index r field
          = Some (cleanAndFormatValue
              (case find (\<lambda>h. hasValue (getProp r h)) (List.map_filter (candidateHeader sheet) ids) of
                 None \<Rightarrow> Str []
               | Some h \<Rightarrow> getProp r h))"
    by (simp only: stackValue_find)
  assume d: "\<forall>c\<in>set ids. includesDelim c"
  have "map_of mappings field = Some ids" using h by simp
  then have "resolveValue mappings field sheet r = resolveCandidates sheet r ids"
    by (simp add: resolveValue_def)
  then show "stackRow sheet mappings index r field
               = Some (cleanAndFormatValue (resolveValue mappings field sheet r))"
    using f d by (simp add: stackValue_resolveCandidates)
next
  assume "mergeMethod c = Vertical"
  then show "mergeData sheets mappings (Some c) = stackData sheets mappings"
    by (rule mergeData_vertical)
qed

theorem stack_merge_witness:
  "''id'' \<notin> fst ` set [(''F'', [''a.xlsx::S::Name''])]
   \<and> distinct (map fst [(''F'', [''a.xlsx::S::Name''])])
   \<and> (''F'', [''a.xlsx::S::Name'']) \<in> set [(''F'', [''a.xlsx::S::Name''])]
   \<and> includesDelim ''a.xlsx::S::Name''
   \<and> mergeMethod \<lparr>mergeMethod = Vertical, joinKey = ''F'', joinType = Outer, removeDuplicates = True\<rparr> = Vertical
   \<and> stackRow \<lparr>fileName = ''a.xlsx'', sheetName = ''S'', headers = [''Name''], rows = [[''Name'' \<mapsto> Str '' x '']]\<rparr>
        [(''F'', [''a.xlsx::S::Name''])] 0 [''Name'' \<mapsto> Str '' x ''] ''F'' = Some (Str ''x'')
   \<and> stackRow \<lparr>fileName = ''a.xlsx'', sheetName = ''S'', headers = [''Name''], rows = [[''Name'' \<mapsto> Str '' x '']]\<rparr>
        [(''F'', [''a.xlsx::S::Name''])] 0 [''Name'' \<mapsto> Str '' x ''] ''id'' = Some (Str ''a.xlsx-S-0'')
   \<and> length (mergeData
        [\<lparr>fileName = ''a.xlsx'', sheetName = ''S'', headers = [''Name''], rows = [[''Name'' \<mapsto> Str '' x '']]\<rparr>]
        [(''F'', [''a.xlsx::S::Name''])]
        (Some \<lparr>mergeMethod = Vertical, joinKey = ''F'', joinType = Outer, removeDuplicates = True\<rparr>)) = 1"
proof -
  let ?sheet = "\<lparr>fileName = ''a.xlsx'', sheetName = ''S'', headers = [''Name''], rows = [[''Name'' \<mapsto> Str '' x '']]\<rparr>"
  let ?mp = "[(''F'', [''a.xlsx::S::Name''])]"
  let ?c = "\<lparr>mergeMethod = Vertical, joinKey = ''F'', joinType = Outer, removeDuplicates = True\<rparr>"
  note t = stack_merge [of "[?sheet]" ?mp ?sheet 0 "[''Name'' \<mapsto> Str '' x '']" "''F''" "[''a.xlsx::S::Name'']" ?c]
  have h1: "''id'' \<notin> fst ` set ?mp" by simp
  have h2: "distinct (map fst ?mp) \<and> (''F'', [''a.xlsx::S::Name'']) \<in> set ?mp
            \<and> ''F'' \<noteq> ''_sourceFile'' \<and> ''F'' \<noteq> ''_sourceSheet''" by simp
  have h3: "\<forall>c\<in>set [''a.xlsx::S::Name'']. includesDelim c" by simp
  have h4: "mergeMethod ?c = Vertical" by simp
  have v: "cleanAndFormatValue (resolveValue ?mp ''F'' ?sheet [''Name'' \<mapsto> Str '' x '']) = Str ''x''"
    by code_simp
  have d: "digitsOf 0 = ''0''" by code_simp
  have "stackRow ?sheet ?mp 0 [''Name'' \<mapsto> Str '' x ''] ''F''
      = Some (cleanAndFormatValue (resolveValue ?mp ''F'' ?sheet [''Name'' \<mapsto> Str '' x '']))"
    using t h2 h3 by blast
  then have f: "stackRow ?sheet ?mp 0 [''Name'' \<mapsto> Str '' x ''] ''F'' = Some (Str ''x'')"
    unfolding v .
  have "stackRow ?sheet ?mp 0 [''Name'' \<mapsto> Str '' x ''] ''id''
      = Some (Str (fileName ?sheet @ ''-'' @ sheetName ?sheet @ ''-'' @ digitsOf 0))"
    using t h1 by blast
  then have i: "stackRow ?sheet ?mp 0 [''Name'' \<mapsto> Str '' x ''] ''id'' = Some (Str ''a.xlsx-S-0'')"
    unfolding d by simp
  have "mergeData [?sheet] ?mp (Some ?c) = stackData [?sheet] ?mp"
    using t h4 by blast
  moreover have "length (stackData [?sheet] ?mp) = sum_list (map (\<lambda>sheet. length (rows sheet)) [?sheet])"
    using t by blast
  ultimately have l: "length (mergeData [?sheet] ?mp (Some ?c)) = 1"
    by simp
  show ?thesis using h1 h2 h3 h4 f i l by simp
qed

text \<open>
  The candidate loop over a list split in two: the second part is reached only when the
  first part has come out empty.
\<close>

lemma stackValue_append:
  "stackValue sheet r (pre @ rest)
     = (if stackValue sheet r pre \<noteq> Str [] then stackValue sheet r pre else stackValue sheet r rest)"
proof (induction pre)
  case Nil
  then show ?case by simp
next
  case (Cons mId pre)
  show ?case
  proof (cases "includesDelim mId")
    case True
    obtain fName sName header where p: "parseMappingId mId = (fName, sName, header)"
      by (cases "parseMappingId mId") auto
    have a: "stackValue sheet r (mId # xs)
        = (if fName = fileName sheet \<and> sName = sheetName sheet \<and> hasValue (getProp r header)
           then getProp r header else stackValue sheet r xs)" for xs
      using stackValue_qualified[OF True, of sheet r xs] p by simp
    show ?thesis
      unfolding append_Cons a using Cons.IH by (auto simp: hasValue_def)
  next
    case False
    have a: "stackValue sheet r (mId # xs)
        = (if hasValue (getProp r mId) then getProp r mId else stackValue sheet r xs)" for xs
      by (rule stackValue_bare[OF False])
    show ?thesis
      unfolding append_Cons a using Cons.IH by (auto simp: hasValue_def)
  qed
qed

lemma concat_nth_offset:
  "i < length xss \<Longrightarrow> j < length (xss ! i) \<Longrightarrow>
   concat xss ! (sum_list (map length (take i xss)) + j) = xss ! i ! j"
proof (induction xss arbitrary: i)
  case Nil
  then show ?case by simp
next
  case (Cons xs xss)
  show ?case
  proof (cases i)
    case 0
    then show ?thesis using Cons.prems by (simp add: nth_append)
  next
    case (Suc k)
    then have "concat xss ! (sum_list (map length (take k xss)) + j) = xss ! k ! j"
      using Cons by simp
    then show ?thesis using Suc by (simp add: nth_append add.assoc)
  qed
qed

text \<open>The output row that the stack merge makes from row \<open>j\<close> of sheet \<open>i\<close>.\<close>

lemma stackData_nth:
  assumes "i < length sheets" "j < length (rows (sheets ! i))"
  shows "stackData sheets mappings ! (stackOffset sheets i + j)
       = stackRow (sheets ! i) mappings j (rows (sheets ! i) ! j)"
proof -
  let ?f = "\<lambda>sheet. map (\<lambda>(index, r). stackRow sheet mappings index r) (enumerate 0 (rows sheet))"
  have l: "map length (take i (map ?f sheets)) = map (\<lambda>s. length (rows s)) (take i sheets)"
    by (simp add: take_map)
  have "concat (map ?f sheets) ! (sum_list (map length (take i (map ?f sheets))) + j)
      = map ?f sheets ! i ! j"
    by (rule concat_nth_offset) (use assms in simp_all)
  also have "map ?f sheets ! i ! j = stackRow (sheets ! i) mappings j (rows (sheets ! i) ! j)"
    using assms by (simp add: nth_enumerate_eq)
  finally show ?thesis
    unfolding l by (simp only: stackData_concat stackOffset_def)
qed

text \<open>
  C10. In the stack merge, take the output row made from row \<open>j\<close> of sheet \<open>i\<close>, and a
  field whose candidate list is \<open>pre @ c # post\<close>, for any mapping with distinct field
  keys. If the candidate \<open>c\<close> holds no \<open>::\<close> delimiter it is a bare header name: whatever
  the sheet is, when the earlier candidates give nothing the field is the normalized cell
  under the header \<open>c\<close> if that cell has a value, and otherwise it comes from the later
  candidates. If \<open>c\<close> holds the delimiter and names the file and the sheet of the row, the
  same is true with the header it names; if it names another file or sheet, the field is
  what the candidate list without \<open>c\<close> gives, so \<open>c\<close> is not consulted. Hence there is a
  mapping with a delimiter-free candidate, under a field keyed otherwise, from which the
  rows of every sheet of every list of sheets take their value.
\<close>

theorem bare_candidate_every_sheet:
  "(distinct (map fst mappings) \<and> (field, pre @ c # post) \<in> set mappings
      \<and> field \<noteq> ''_sourceFile'' \<and> field \<noteq> ''_sourceSheet''
      \<and> i < length sheets \<and> j < length (rows (sheets ! i))
      \<and> sheet = sheets ! i \<and> r = rows (sheets ! i) ! j
      \<and> out = stackData sheets mappings ! (stackOffset sheets i + j) \<longrightarrow>
      (\<not> includesDelim c \<longrightarrow>
         out field = Some (cleanAndFormatValue
           (if stackValue sheet r pre \<noteq> Str [] then stackValue sheet r pre
            else if hasValue (getProp r c) then getProp r c
            else stackValue sheet r post)))
      \<and> (\<not> includesDelim c \<and> stackValue sheet r pre = Str [] \<and> hasValue (getProp r c) \<longrightarrow>
         out field = Some (cleanAndFormatValue (getProp r c)))
      \<and> (includesDelim c \<and> parseMappingId c = (fName, sName, header)
           \<and> fName = fileName sheet \<and> sName = sheetName sheet \<longrightarrow>
         out field = Some (cleanAndFormatValue
           (if stackValue sheet r pre \<noteq> Str [] then stackValue sheet r pre
            else if hasValue (getProp r header) then getProp r header
            else stackValue sheet r post)))
      \<and> (includesDelim c \<and> parseMappingId c = (fName, sName, header)
           \<and> \<not> (fName = fileName sheet \<and> sName = sheetName sheet) \<longrightarrow>
         out field = Some (cleanAndFormatValue (stackValue sheet r (pre @ post)))))
   \<and> (\<exists>mp f h. \<not> includesDelim h \<and> f \<noteq> h \<and> (f, [h]) \<in> set mp
        \<and> (\<forall>shs a b. a < length shs \<and> b < length (rows (shs ! a))
              \<and> hasValue (getProp (rows (shs ! a) ! b) h) \<longrightarrow>
            (stackData shs mp ! (stackOffset shs a + b)) f
              = Some (cleanAndFormatValue (getProp (rows (shs ! a) ! b) h))))"
proof (rule conjI)
  show "distinct (map fst mappings) \<and> (field, pre @ c # post) \<in> set mappings
      \<and> field \<noteq> ''_sourceFile'' \<and> field \<noteq> ''_sourceSheet''
      \<and> i < length sheets \<and> j < length (rows (sheets ! i))
      \<and> sheet = sheets ! i \<and> r = rows (sheets ! i) ! j
      \<and> out = stackData sheets mappings ! (stackOffset sheets i + j) \<longrightarrow>
      (\<not> includesDelim c \<longrightarrow>
         out field = Some (cleanAndFormatValue
           (if stackValue sheet r pre \<noteq> Str [] then stackValue sheet r pre
            else if hasValue (getProp r c) then getProp r c
            else stackValue sheet r post)))
      \<and> (\<not> includesDelim c \<and> stackValue sheet r pre = Str [] \<and> hasValue (getProp r c) \<longrightarrow>
         out field = Some (cleanAndFormatValue (getProp r c)))
      \<and> (includesDelim c \<and> parseMappingId c = (fName, sName, header)
           \<and> fName = fileName sheet \<and> sName = sheetName sheet \<longrightarrow>
         out field = Some (cleanAndFormatValue
           (if stackValue sheet r pre \<noteq> Str [] then stackValue sheet r pre
            else if hasValue (getProp r header) then getProp r header
            else stackValue sheet r post)))
      \<and> (includesDelim c \<and> parseMappingId c = (fName, sName, header)
           \<and> \<not> (fName = fileName sheet \<and> sName = sheetName sheet) \<longrightarrow>
         out field = Some (cleanAndFormatValue (stackValue sheet r (pre @ post))))"
  proof (intro impI)
    assume h: "distinct (map fst mappings) \<and> (field, pre @ c # post) \<in> set mappings
      \<and> field \<noteq> ''_sourceFile'' \<and> field \<noteq> ''_sourceSheet''
      \<and> i < length sheets \<and> j < length (rows (sheets ! i))
      \<and> sheet = sheets ! i \<and> r = rows (sheets ! i) ! j
      \<and> out = stackData sheets mappings ! (stackOffset sheets i + j)"
    then have "out = stackRow sheet mappings j r" by (simp add: stackData_nth)
    then have o: "out field = Some (cleanAndFormatValue (stackValue sheet r (pre @ c # post)))"
      using h by (simp add: stackRow_field)
    have s: "stackValue sheet r (pre @ xs)
        = (if stackValue sheet r pre \<noteq> Str [] then stackValue sheet r pre else stackValue sheet r xs)"
      for xs by (rule stackValue_append)
    have b: "out field = Some (cleanAndFormatValue
           (if stackValue sheet r pre \<noteq> Str [] then stackValue sheet r pre
            else if hasValue (getProp r c) then getProp r c
            else stackValue sheet r post))" if "\<not> includesDelim c"
      unfolding o s stackValue_bare[OF that] by simp
    have q1: "out field = Some (cleanAndFormatValue
           (if stackValue sheet r pre \<noteq> Str [] then stackValue sheet r pre
            else if hasValue (getProp r header) then getProp r header
            else stackValue sheet r post))"
      if "includesDelim c \<and> parseMappingId c = (fName, sName, header)
           \<and> fName = fileName sheet \<and> sName = sheetName sheet"
    proof -
      have "stackValue sheet r (c # post)
          = (if hasValue (getProp r header) then getProp r header else stackValue sheet r post)"
        using that stackValue_qualified[of c sheet r post] by simp
      then show ?thesis unfolding o s by simp
    qed
    have q2: "out field = Some (cleanAndFormatValue (stackValue sheet r (pre @ post)))"
      if "includesDelim c \<and> parseMappingId c = (fName, sName, header)
           \<and> \<not> (fName = fileName sheet \<and> sName = sheetName sheet)"
    proof -
      have "stackValue sheet r (c # post) = stackValue sheet r post"
        using that stackValue_qualified[of c sheet r post] by auto
      then show ?thesis unfolding o s by simp
    qed
    show "(\<not> includesDelim c \<longrightarrow>
         out field = Some (cleanAndFormatValue
           (if stackValue sheet r pre \<noteq> Str [] then stackValue sheet r pre
            else if hasValue (getProp r c) then getProp r c
            else stackValue sheet r post)))
      \<and> (\<not> includesDelim c \<and> stackValue sheet r pre = Str [] \<and> hasValue (getProp r c) \<longrightarrow>
         out field = Some (cleanAndFormatValue (getProp r c)))
      \<and> (includesDelim c \<and> parseMappingId c = (fName, sName, header)
           \<and> fName = fileName sheet \<and> sName = sheetName sheet \<longrightarrow>
         out field = Some (cleanAndFormatValue
           (if stackValue sheet r pre \<noteq> Str [] then stackValue sheet r pre
            else if hasValue (getProp r header) then getProp r header
            else stackValue sheet r post)))
      \<and> (includesDelim c \<and> parseMappingId c = (fName, sName, header)
           \<and> \<not> (fName = fileName sheet \<and> sName = sheetName sheet) \<longrightarrow>
         out field = Some (cleanAndFormatValue (stackValue sheet r (pre @ post))))"
    proof (intro conjI impI)
      assume "\<not> includesDelim c"
      then show "out field = Some (cleanAndFormatValue
           (if stackValue sheet r pre \<noteq> Str [] then stackValue sheet r pre
            else if hasValue (getProp r c) then getProp r c
            else stackValue sheet r post))" by (rule b)
    next
      assume a: "\<not> includesDelim c \<and> stackValue sheet r pre = Str [] \<and> hasValue (getProp r c)"
      then have "\<not> includesDelim c" by simp
      then have "out field = Some (cleanAndFormatValue
           (if stackValue sheet r pre \<noteq> Str [] then stackValue sheet r pre
            else if hasValue (getProp r c) then getProp r c
            else stackValue sheet r post))" by (rule b)
      then show "out field = Some (cleanAndFormatValue (getProp r c))" using a by simp
    next
      assume "includesDelim c \<and> parseMappingId c = (fName, sName, header)
           \<and> fName = fileName sheet \<and> sName = sheetName sheet"
      then show "out field = Some (cleanAndFormatValue
           (if stackValue sheet r pre \<noteq> Str [] then stackValue sheet r pre
            else if hasValue (getProp r header) then getProp r header
            else stackValue sheet r post))" by (rule q1)
    next
      assume "includesDelim c \<and> parseMappingId c = (fName, sName, header)
           \<and> \<not> (fName = fileName sheet \<and> sName = sheetName sheet)"
      then show "out field = Some (cleanAndFormatValue (stackValue sheet r (pre @ post)))"
        by (rule q2)
    qed
  qed
next
  have n: "\<not> includesDelim ''Name''" by simp
  have "(stackData shs [(''F'', [''Name''])] ! (stackOffset shs a + b)) ''F''
      = Some (cleanAndFormatValue (getProp (rows (shs ! a) ! b) ''Name''))"
    if t: "a < length shs \<and> b < length (rows (shs ! a))
           \<and> hasValue (getProp (rows (shs ! a) ! b) ''Name'')" for shs a b
  proof -
    have "stackData shs [(''F'', [''Name''])] ! (stackOffset shs a + b)
        = stackRow (shs ! a) [(''F'', [''Name''])] b (rows (shs ! a) ! b)"
      using t by (simp add: stackData_nth)
    moreover have "stackRow (shs ! a) [(''F'', [''Name''])] b (rows (shs ! a) ! b) ''F''
        = Some (cleanAndFormatValue (stackValue (shs ! a) (rows (shs ! a) ! b) [''Name'']))"
      by (rule stackRow_field) simp_all
    ultimately show ?thesis using t by (simp only: stackValue_bare[OF n] if_True)
  qed
  then show "\<exists>mp f h. \<not> includesDelim h \<and> f \<noteq> h \<and> (f, [h]) \<in> set mp
        \<and> (\<forall>shs a b. a < length shs \<and> b < length (rows (shs ! a))
              \<and> hasValue (getProp (rows (shs ! a) ! b) h) \<longrightarrow>
            (stackData shs mp ! (stackOffset shs a + b)) f
              = Some (cleanAndFormatValue (getProp (rows (shs ! a) ! b) h)))"
    using n by (intro exI[of _ "[(''F'', [''Name''])]"] exI[of _ "''F''"] exI[of _ "''Name''"]) simp
qed

text \<open>
  Two sheets with the headers \<^verbatim>\<open>Name\<close> and \<^verbatim>\<open>Code\<close>: the bare candidate
  \<^verbatim>\<open>Name\<close> fills field \<open>N\<close> in the rows of both, the candidate
  \<^verbatim>\<open>a.xlsx::S::Code\<close> fills field \<open>C\<close> in the row of the first sheet only,
  although the second sheet has a column \<^verbatim>\<open>Code\<close> too.
\<close>

theorem bare_candidate_every_sheet_witness:
  "\<not> includesDelim ''Name'' \<and> includesDelim ''a.xlsx::S::Code''
   \<and> parseMappingId ''a.xlsx::S::Code'' = (''a.xlsx'', ''S'', ''Code'')
   \<and> (stackData
         [\<lparr>fileName = ''a.xlsx'', sheetName = ''S'', headers = [''Name'', ''Code''],
            rows = [[''Name'' \<mapsto> Str ''x'', ''Code'' \<mapsto> Str ''1'']]\<rparr>,
          \<lparr>fileName = ''b.xlsx'', sheetName = ''T'', headers = [''Name'', ''Code''],
            rows = [[''Name'' \<mapsto> Str ''y'', ''Code'' \<mapsto> Str ''2'']]\<rparr>]
         [(''N'', [''Name'']), (''C'', [''a.xlsx::S::Code''])] ! 0) ''N'' = Some (Str ''x'')
   \<and> (stackData
         [\<lparr>fileName = ''a.xlsx'', sheetName = ''S'', headers = [''Name'', ''Code''],
            rows = [[''Name'' \<mapsto> Str ''x'', ''Code'' \<mapsto> Str ''1'']]\<rparr>,
          \<lparr>fileName = ''b.xlsx'', sheetName = ''T'', headers = [''Name'', ''Code''],
            rows = [[''Name'' \<mapsto> Str ''y'', ''Code'' \<mapsto> Str ''2'']]\<rparr>]
         [(''N'', [''Name'']), (''C'', [''a.xlsx::S::Code''])] ! 1) ''N'' = Some (Str ''y'')
   \<and> (stackData
         [\<lparr>fileName = ''a.xlsx'', sheetName = ''S'', headers = [''Name'', ''Code''],
            rows = [[''Name'' \<mapsto> Str ''x'', ''Code'' \<mapsto> Str ''1'']]\<rparr>,
          \<lparr>fileName = ''b.xlsx'', sheetName = ''T'', headers = [''Name'', ''Code''],
            rows = [[''Name'' \<mapsto> Str ''y'', ''Code'' \<mapsto> Str ''2'']]\<rparr>]
         [(''N'', [''Name'']), (''C'', [''a.xlsx::S::Code''])] ! 0) ''C'' = Some (Num (Fin 1))
   \<and> (stackData
         [\<lparr>fileName = ''a.xlsx'', sheetName = ''S'', headers = [''Name'', ''Code''],
            rows = [[''Name'' \<mapsto> Str ''x'', ''Code'' \<mapsto> Str ''1'']]\<rparr>,
          \<lparr>fileName = ''b.xlsx'', sheetName = ''T'', headers = [''Name'', ''Code''],
            rows = [[''Name'' \<mapsto> Str ''y'', ''Code'' \<mapsto> Str ''2'']]\<rparr>]
         [(''N'', [''Name'']), (''C'', [''a.xlsx::S::Code''])] ! 1) ''C'' = Some (Str [])"
proof -
  let ?ra = "[''Name'' \<mapsto> Str ''x'', ''Code'' \<mapsto> Str ''1'']"
  let ?rb = "[''Name'' \<mapsto> Str ''y'', ''Code'' \<mapsto> Str ''2'']"
  let ?A = "\<lparr>fileName = ''a.xlsx'', sheetName = ''S'', headers = [''Name'', ''Code''], rows = [?ra]\<rparr>"
  let ?B = "\<lparr>fileName = ''b.xlsx'', sheetName = ''T'', headers = [''Name'', ''Code''], rows = [?rb]\<rparr>"
  let ?mp = "[(''N'', [''Name'']), (''C'', [''a.xlsx::S::Code''])]"
  have n: "\<not> includesDelim ''Name''" by simp
  have q: "includesDelim ''a.xlsx::S::Code''" by simp
  have p: "parseMappingId ''a.xlsx::S::Code'' = (''a.xlsx'', ''S'', ''Code'')" by code_simp
  have o0: "stackOffset [?A, ?B] 0 + 0 = 0" by (simp add: stackOffset_def)
  have o1: "stackOffset [?A, ?B] 1 + 0 = 1" by (simp add: stackOffset_def)
  have va: "hasValue (getProp ?ra ''Name'')" "hasValue (getProp ?ra ''Code'')"
    by (simp_all add: hasValue_def getProp_def)
  have vb: "hasValue (getProp ?rb ''Name'')" by (simp add: hasValue_def getProp_def)
  have c1: "cleanAndFormatValue (getProp ?ra ''Name'') = Str ''x''" by code_simp
  have c2: "cleanAndFormatValue (getProp ?rb ''Name'') = Str ''y''" by code_simp
  have c3: "cleanAndFormatValue (getProp ?ra ''Code'') = Num (Fin 1)" by code_simp
  have c4: "cleanAndFormatValue (Str []) = Str []" by code_simp
  have 1: "(stackData [?A, ?B] ?mp ! 0) ''N'' = Some (Str ''x'')"
    using bare_candidate_every_sheet [where mappings = ?mp and field = "''N''" and pre = "[]"
        and c = "''Name''" and post = "[]" and sheets = "[?A, ?B]" and i = 0 and j = 0
        and sheet = ?A and r = ?ra and out = "stackData [?A, ?B] ?mp ! 0"] n va o0
    by (simp add: c1)
  have 2: "(stackData [?A, ?B] ?mp ! 1) ''N'' = Some (Str ''y'')"
    using bare_candidate_every_sheet [where mappings = ?mp and field = "''N''" and pre = "[]"
        and c = "''Name''" and post = "[]" and sheets = "[?A, ?B]" and i = 1 and j = 0
        and sheet = ?B and r = ?rb and out = "stackData [?A, ?B] ?mp ! 1"] n vb o1
    by (simp add: c2)
  have 3: "(stackData [?A, ?B] ?mp ! 0) ''C'' = Some (Num (Fin 1))"
    using bare_candidate_every_sheet [where mappings = ?mp and field = "''C''" and pre = "[]"
        and c = "''a.xlsx::S::Code''" and post = "[]" and sheets = "[?A, ?B]" and i = 0 and j = 0
        and sheet = ?A and r = ?ra and out = "stackData [?A, ?B] ?mp ! 0"
        and fName = "''a.xlsx''" and sName = "''S''" and header = "''Code''"] q p va o0
    by (simp add: c3)
  have 4: "(stackData [?A, ?B] ?mp ! 1) ''C'' = Some (Str [])"
    using bare_candidate_every_sheet [where mappings = ?mp and field = "''C''" and pre = "[]"
        and c = "''a.xlsx::S::Code''" and post = "[]" and sheets = "[?A, ?B]" and i = 1 and j = 0
        and sheet = ?B and r = ?rb and out = "stackData [?A, ?B] ?mp ! 1"
        and fName = "''a.xlsx''" and sName = "''S''" and header = "''Code''"] q p o1
    by (simp add: c4)
  show ?thesis using n q p 1 2 3 4 by simp
qed

section \<open>Properties of the join merge\<close>

lemma deriveKey_nonempty: "deriveKey sheet r ids = Some k \<Longrightarrow> k \<noteq> []"
  by (induction ids) (auto split: prod.splits if_splits)

lemma map_of_mapSet: "map_of (mapSet k v m) = (map_of m)(k \<mapsto> v)"
  by (induction m) (auto simp: fun_eq_iff)

lemma map_fst_mapSet:
  "map fst (mapSet k v m) = (if k \<in> set (map fst m) then map fst m else map fst m @ [k])"
proof (induction m)
  case Nil
  then show ?case by simp
next
  case (Cons a m)
  obtain x y where a: "a = (x, y)" by (cases a)
  show ?case using Cons a by (cases "x = k") (auto simp: image_iff)
qed

lemma mapSet_twice: "mapSet k v (mapSet k w m) = mapSet k v m"
  by (induction m) auto

lemma fst_set_setSlot: "set (map fst (setSlot i q e)) = insert i (set (map fst e))"
proof (induction e)
  case Nil
  then show ?case by simp
next
  case (Cons a e)
  obtain j p where a: "a = (j, p)" by (cases a)
  show ?case using Cons a by (cases "i < j"; cases "i = j") auto
qed

lemma set_setSlot_subset: "set (setSlot i q e) \<subseteq> insert (i, q) (set e)"
proof (induction e)
  case Nil
  then show ?case by simp
next
  case (Cons a e)
  obtain j p where a: "a = (j, p)" by (cases a)
  show ?case using Cons a by (cases "i < j"; cases "i = j") auto
qed

lemma sorted_setSlot:
  "sorted_wrt (<) (map fst e) \<Longrightarrow> sorted_wrt (<) (map fst (setSlot i q e))"
proof (induction e)
  case Nil
  then show ?case by simp
next
  case (Cons a e)
  obtain j p where a: "a = (j, p)" by (cases a)
  have s: "sorted_wrt (<) (map fst e)" and b: "\<forall>x\<in>set e. j < fst x"
    using Cons.prems a by auto
  show ?case
  proof (cases "i < j")
    case True
    then show ?thesis using Cons.prems a b by auto
  next
    case False
    show ?thesis
    proof (cases "i = j")
      case True
      then show ?thesis using Cons.prems a by auto
    next
      case ne: False
      then have lt: "j < i" using False by simp
      have "\<forall>x\<in>set (setSlot i q e). j < fst x"
      proof
        fix x assume "x \<in> set (setSlot i q e)"
        then have "x = (i, q) \<or> x \<in> set e" using set_setSlot_subset by blast
        then show "j < fst x" using lt b by auto
      qed
      then show ?thesis using Cons.IH[OF s] a False ne by simp
    qed
  qed
qed

lemma slotsOf_fst: "slotsOf st k \<noteq> [] \<Longrightarrow> k \<in> set (map fst (keyMap st))"
proof -
  assume "slotsOf st k \<noteq> []"
  then have "map_of (keyMap st) k \<noteq> None" by (auto simp: slotsOf_def split: option.splits)
  then show ?thesis by (simp add: map_of_eq_None_iff)
qed

lemma indexInv_init: "indexInv ids sheets {} \<lparr>keyMap = [], allKeySet = []\<rparr>"
  by (simp add: indexInv_def slotsOf_def)

lemma indexRow_None: "deriveKey sheet r ids = None \<Longrightarrow> indexRow ids sheet i r st = st"
  by (simp add: indexRow_def)

lemma indexRow_Some:
  assumes "deriveKey sheet r ids = Some k"
  shows "keyMap (indexRow ids sheet i r st) =
           (if i \<in> set (map fst (slotsOf st k))
            then (if k \<in> set (map fst (keyMap st)) then keyMap st else mapSet k [] (keyMap st))
            else mapSet k (setSlot i (sourceRow sheet r) (slotsOf st k)) (keyMap st))"
    and "allKeySet (indexRow ids sheet i r st) =
           (if k \<in> set (map fst (keyMap st)) then allKeySet st else setAdd (allKeySet st) k)"
proof -
  have ne: "k \<noteq> []" using assms by (rule deriveKey_nonempty)
  show "allKeySet (indexRow ids sheet i r st) =
           (if k \<in> set (map fst (keyMap st)) then allKeySet st else setAdd (allKeySet st) k)"
    using assms ne by (simp add: indexRow_def Let_def map_of_eq_None_iff)
  show "keyMap (indexRow ids sheet i r st) =
           (if i \<in> set (map fst (slotsOf st k))
            then (if k \<in> set (map fst (keyMap st)) then keyMap st else mapSet k [] (keyMap st))
            else mapSet k (setSlot i (sourceRow sheet r) (slotsOf st k)) (keyMap st))"
  proof (cases "map_of (keyMap st) k")
    case None
    then have s: "slotsOf st k = []" by (simp add: slotsOf_def)
    have m: "mapSet k v (mapSet k [] (keyMap st)) = mapSet k v (keyMap st)" for v
      by (rule mapSet_twice)
    show ?thesis using assms ne None s
      by (simp add: indexRow_def Let_def map_of_eq_None_iff map_of_mapSet m)
  next
    case (Some e)
    then have s: "slotsOf st k = e" by (simp add: slotsOf_def)
    have k: "k \<in> set (map fst (keyMap st))"
      using Some map_of_eq_None_iff[of "keyMap st" k] by simp
    show ?thesis using assms ne Some s k
      by (auto simp: indexRow_def Let_def map_of_eq_None_iff)
  qed
qed

lemma slotsOf_keyMap:
  "keyMap st' = mapSet k e (keyMap st) \<Longrightarrow> slotsOf st' k' = (if k' = k then e else slotsOf st k')"
  by (simp add: slotsOf_def map_of_mapSet)

lemma fst_image_setSlot: "fst ` set (setSlot i q e) = insert i (fst ` set e)"
  using fst_set_setSlot[of i q e] by simp

lemma indexInv_step:
  assumes inv: "indexInv ids sheets E st" and sh: "sheet = sheets ! i"
  shows "indexInv ids sheets
           (E \<union> (case deriveKey sheet r ids of None \<Rightarrow> {} | Some k \<Rightarrow> {(k, i)}))
           (indexRow ids sheet i r st)"
proof (cases "deriveKey sheet r ids")
  case None
  then show ?thesis using inv by (simp add: indexRow_None)
next
  case (Some k)
  let ?st = "indexRow ids sheet i r st"
  let ?new = "setSlot i (sourceRow sheet r) (slotsOf st k)"
  have a1: "allKeySet st = map fst (keyMap st)" and a2: "distinct (allKeySet st)"
    and a3: "set (allKeySet st) = fst ` E"
    and a4: "\<And>k. set (map fst (slotsOf st k)) = {i. (k, i) \<in> E}"
    and a5: "\<And>k. sorted_wrt (<) (map fst (slotsOf st k))"
    and a6: "\<And>k i q. (i, q) \<in> set (slotsOf st k) \<Longrightarrow>
               \<exists>r. q = sourceRow (sheets ! i) r \<and> deriveKey (sheets ! i) r ids = Some k"
    using inv unfolding indexInv_def by blast+
  note km = indexRow_Some(1)[OF Some, of i st] and ks = indexRow_Some(2)[OF Some, of i st]
  show ?thesis
  proof (cases "i \<in> set (map fst (slotsOf st k))")
    case True
    then have "slotsOf st k \<noteq> []" by auto
    then have k: "k \<in> set (map fst (keyMap st))" by (rule slotsOf_fst)
    have "keyMap ?st = keyMap st" "allKeySet ?st = allKeySet st"
      using km ks True k by simp_all
    moreover have "keyIndex.more ?st = keyIndex.more st" by simp
    ultimately have e: "?st = st" by (rule keyIndex.equality)
    have "(k, i) \<in> E" using True a4[of k] by simp
    then have "E \<union> {(k, i)} = E" by auto
    then show ?thesis using inv e Some by simp
  next
    case False
    have km': "keyMap ?st = mapSet k ?new (keyMap st)" using km False by simp
    have sl: "slotsOf ?st k' = (if k' = k then ?new else slotsOf st k')" for k'
      using km' by (rule slotsOf_keyMap)
    have b1: "allKeySet ?st = map fst (keyMap ?st)"
      unfolding km' ks map_fst_mapSet using a1 by (simp add: setAdd_def)
    have b2: "distinct (allKeySet ?st)"
      unfolding ks using a2 by (simp add: setAdd_def)
    have b3: "set (allKeySet ?st) = fst ` (E \<union> {(k, i)})"
      unfolding ks using a1 a3 by (auto simp: setAdd_def)
    have b4: "set (map fst (slotsOf ?st k')) = {j. (k', j) \<in> E \<union> {(k, i)}}" for k'
      unfolding sl using a4[of k'] by (auto simp: fst_image_setSlot)
    have b5: "sorted_wrt (<) (map fst (slotsOf ?st k'))" for k'
      unfolding sl using a5[of k'] sorted_setSlot[OF a5[of k], of i "sourceRow sheet r"] by simp
    have b6: "\<exists>r. q = sourceRow (sheets ! j) r \<and> deriveKey (sheets ! j) r ids = Some k'"
      if "(j, q) \<in> set (slotsOf ?st k')" for k' j q
    proof (cases "k' = k")
      case True
      then have "(j, q) \<in> set ?new" using that sl by simp
      then have "(j, q) = (i, sourceRow sheet r) \<or> (j, q) \<in> set (slotsOf st k)"
        using set_setSlot_subset by blast
      then show ?thesis using a6[of j q k] Some sh True by auto
    next
      case False
      then show ?thesis using that sl a6[of j q k'] by simp
    qed
    show ?thesis unfolding indexInv_def Some using b1 b2 b3 b4 b5 b6 by simp
  qed
qed

lemma indexInv_rows:
  assumes "indexInv ids sheets E st" and "sheet = sheets ! i"
  shows "indexInv ids sheets
           (E \<union> {(k, i) | k. k \<in> set (List.map_filter (\<lambda>r. deriveKey sheet r ids) rs)})
           (fold (indexRow ids sheet i) rs st)"
  using assms
proof (induction rs arbitrary: E st)
  case Nil
  then show ?case by (simp add: map_filter_simps)
next
  case (Cons r rs)
  let ?E = "E \<union> (case deriveKey sheet r ids of None \<Rightarrow> {} | Some k \<Rightarrow> {(k, i)})"
  have "indexInv ids sheets ?E (indexRow ids sheet i r st)"
    using Cons.prems by (rule indexInv_step)
  then have "indexInv ids sheets
           (?E \<union> {(k, i) | k. k \<in> set (List.map_filter (\<lambda>r. deriveKey sheet r ids) rs)})
           (fold (indexRow ids sheet i) rs (indexRow ids sheet i r st))"
    using Cons.prems(2) by (rule Cons.IH)
  moreover have "?E \<union> {(k, i) | k. k \<in> set (List.map_filter (\<lambda>r. deriveKey sheet r ids) rs)}
      = E \<union> {(k, i) | k. k \<in> set (List.map_filter (\<lambda>r. deriveKey sheet r ids) (r # rs))}"
    by (auto simp: map_filter_simps split: option.splits)
  ultimately show ?case by simp
qed

lemma indexInv_sheets:
  assumes "indexInv ids sheets E st" and "\<And>i sheet. (i, sheet) \<in> set xs \<Longrightarrow> sheet = sheets ! i"
  shows "indexInv ids sheets
           (E \<union> {(k, i) | k i sheet. (i, sheet) \<in> set xs \<and> k \<in> set (sheetKeys ids sheet)})
           (fold (\<lambda>(sheetIndex, sheet) st. fold (indexRow ids sheet sheetIndex) (rows sheet) st) xs st)"
  using assms
proof (induction xs arbitrary: E st)
  case Nil
  then show ?case by simp
next
  case (Cons x xs)
  obtain i sheet where x: "x = (i, sheet)" by (cases x)
  have sh: "sheet = sheets ! i" using Cons.prems(2) x by simp
  let ?E = "E \<union> {(k, i) | k. k \<in> set (sheetKeys ids sheet)}"
  have "indexInv ids sheets ?E (fold (indexRow ids sheet i) (rows sheet) st)"
    unfolding sheetKeys_def using Cons.prems(1) sh by (rule indexInv_rows)
  then have "indexInv ids sheets
           (?E \<union> {(k, i) | k i sheet. (i, sheet) \<in> set xs \<and> k \<in> set (sheetKeys ids sheet)})
           (fold (\<lambda>(sheetIndex, sheet) st. fold (indexRow ids sheet sheetIndex) (rows sheet) st) xs
              (fold (indexRow ids sheet i) (rows sheet) st))"
    using Cons.prems(2) by (intro Cons.IH) auto
  moreover have "?E \<union> {(k, i) | k i sheet. (i, sheet) \<in> set xs \<and> k \<in> set (sheetKeys ids sheet)}
      = E \<union> {(k, i) | k i sheet. (i, sheet) \<in> set (x # xs) \<and> k \<in> set (sheetKeys ids sheet)}"
    using x by auto
  ultimately show ?case using x by simp
qed

lemma buildIndex_inv:
  "indexInv ids sheets {(k, i). i < length sheets \<and> k \<in> set (sheetKeys ids (sheets ! i))}
     (buildIndex sheets ids)"
proof -
  have "indexInv ids sheets
           ({} \<union> {(k, i) | k i sheet. (i, sheet) \<in> set (enumerate 0 sheets) \<and> k \<in> set (sheetKeys ids sheet)})
           (buildIndex sheets ids)"
    unfolding buildIndex_def
    by (rule indexInv_sheets[OF indexInv_init]) (simp add: in_set_enumerate_eq)
  moreover have "{} \<union> {(k, i) | k i sheet. (i, sheet) \<in> set (enumerate 0 sheets) \<and> k \<in> set (sheetKeys ids sheet)}
      = {(k, i). i < length sheets \<and> k \<in> set (sheetKeys ids (sheets ! i))}"
    by (auto simp: in_set_enumerate_eq)
  ultimately show ?thesis by simp
qed

lemma keys_outer:
  "set (allKeySet (buildIndex sheets ids)) = (\<Union>sheet\<in>set sheets. set (sheetKeys ids sheet))"
proof -
  have "set (allKeySet (buildIndex sheets ids))
      = fst ` {(k, i). i < length sheets \<and> k \<in> set (sheetKeys ids (sheets ! i))}"
    using buildIndex_inv[of ids sheets] unfolding indexInv_def by blast
  also have "\<dots> = (\<Union>sheet\<in>set sheets. set (sheetKeys ids sheet))"
  proof (rule set_eqI)
    fix k
    show "k \<in> fst ` {(k, i). i < length sheets \<and> k \<in> set (sheetKeys ids (sheets ! i))}
        \<longleftrightarrow> k \<in> (\<Union>sheet\<in>set sheets. set (sheetKeys ids sheet))"
    proof
      assume "k \<in> fst ` {(k, i). i < length sheets \<and> k \<in> set (sheetKeys ids (sheets ! i))}"
      then obtain i where "i < length sheets" "k \<in> set (sheetKeys ids (sheets ! i))" by auto
      then show "k \<in> (\<Union>sheet\<in>set sheets. set (sheetKeys ids sheet))"
        using nth_mem by blast
    next
      assume "k \<in> (\<Union>sheet\<in>set sheets. set (sheetKeys ids sheet))"
      then obtain sheet where m: "sheet \<in> set sheets" and k: "k \<in> set (sheetKeys ids sheet)" by auto
      obtain i where "i < length sheets" "sheets ! i = sheet"
        using m in_set_conv_nth[of sheet sheets] by auto
      then have "(k, i) \<in> {(k, i). i < length sheets \<and> k \<in> set (sheetKeys ids (sheets ! i))}"
        using k by simp
      then show "k \<in> fst ` {(k, i). i < length sheets \<and> k \<in> set (sheetKeys ids (sheets ! i))}"
        by (rule rev_image_eqI) simp
    qed
  qed
  finally show ?thesis .
qed

lemma keys_distinct: "distinct (allKeySet (buildIndex sheets ids))"
  using buildIndex_inv[of ids sheets] unfolding indexInv_def by blast

lemma slots_holders: "map fst (slotsOf (buildIndex sheets ids) k) = holders ids sheets k"
proof -
  let ?l = "map fst (slotsOf (buildIndex sheets ids) k)"
  have s: "sorted_wrt (<) ?l"
    and e: "set ?l = {i. (k, i) \<in> {(k, i). i < length sheets \<and> k \<in> set (sheetKeys ids (sheets ! i))}}"
    using buildIndex_inv[of ids sheets] unfolding indexInv_def by blast+
  have "sorted_wrt (<) (holders ids sheets k)"
    unfolding holders_def by (rule sorted_wrt_filter) simp
  moreover have "set ?l = set (holders ids sheets k)"
    unfolding e holders_def by auto
  ultimately show ?thesis
    using s by (intro sorted_distinct_set_unique) (simp_all add: strict_sorted_iff)
qed

lemma length_slots: "length (slotsOf (buildIndex sheets ids) k) = length (holders ids sheets k)"
  using slots_holders[of sheets ids k] by (metis length_map)

lemma map_of_key:
  "k \<in> set (allKeySet (buildIndex sheets ids)) \<Longrightarrow>
   map_of (keyMap (buildIndex sheets ids)) k = Some (slotsOf (buildIndex sheets ids) k)"
proof -
  assume "k \<in> set (allKeySet (buildIndex sheets ids))"
  moreover have "allKeySet (buildIndex sheets ids) = map fst (keyMap (buildIndex sheets ids))"
    using buildIndex_inv[of ids sheets] unfolding indexInv_def by blast
  ultimately have "map_of (keyMap (buildIndex sheets ids)) k \<noteq> None"
    by (simp add: map_of_eq_None_iff)
  then show ?thesis by (auto simp: slotsOf_def)
qed

lemma finalKeys_outer:
  "joinType config = Outer \<Longrightarrow>
   finalKeys sheets mappings config = allKeySet (buildIndex sheets (keyCandidates mappings config))"
  by (simp add: finalKeys_def keyCandidates_def Let_def)

lemma finalKeys_inner:
  assumes "joinType config = Inner"
  shows "finalKeys sheets mappings config =
     filter (\<lambda>k. length (slotsOf (buildIndex sheets (keyCandidates mappings config)) k) = length sheets)
       (allKeySet (buildIndex sheets (keyCandidates mappings config)))"
proof -
  let ?st = "buildIndex sheets (keyCandidates mappings config)"
  have "finalKeys sheets mappings config =
      filter (\<lambda>key. case map_of (keyMap ?st) key of None \<Rightarrow> False | Some entry \<Rightarrow> length entry = length sheets)
        (allKeySet ?st)"
    using assms by (simp add: finalKeys_def keyCandidates_def Let_def)
  also have "\<dots> = filter (\<lambda>k. length (slotsOf ?st k) = length sheets) (allKeySet ?st)"
    by (rule filter_cong) (simp_all add: map_of_key)
  finally show ?thesis .
qed

lemma holders_full:
  "length (holders ids sheets k) = length sheets \<longleftrightarrow> (\<forall>sheet\<in>set sheets. k \<in> set (sheetKeys ids sheet))"
proof -
  let ?P = "\<lambda>i. k \<in> set (sheetKeys ids (sheets ! i))"
  have "length (filter ?P [0..<length sheets]) = length [0..<length sheets]
      \<longleftrightarrow> filter (\<lambda>i. \<not> ?P i) [0..<length sheets] = []"
    using sum_length_filter_compl[of ?P "[0..<length sheets]"] by auto
  also have "\<dots> \<longleftrightarrow> (\<forall>i<length sheets. ?P i)"
    by (auto simp: filter_empty_conv)
  also have "\<dots> \<longleftrightarrow> (\<forall>sheet\<in>set sheets. k \<in> set (sheetKeys ids sheet))"
    using in_set_conv_nth[of _ sheets] nth_mem[of _ sheets] by metis
  finally show ?thesis by (simp add: holders_def)
qed

lemma length_joinData:
  "length (joinData sheets mappings config) = length (finalKeys sheets mappings config)"
  by (simp add: joinData_def Let_def)

text \<open>
  C3. For every list of sheets, every mapping and every join key: the key set of the outer
  join is the union of the keys derived from the rows of all sheets; the inner join keeps
  exactly the keys whose slot count (the number of sheets that hold the key) equals the
  number of sheets, that is the keys present in every sheet; hence the inner keys are a
  subset of the outer keys, and there are at most as many of them as any single sheet has
  distinct keys. The join has one output row per key.
\<close>

theorem join_key_sets:
  "set (finalKeys sheets mappings (config\<lparr>joinType := Outer\<rparr>))
     = (\<Union>sheet\<in>set sheets. set (sheetKeys (keyCandidates mappings config) sheet))
   \<and> finalKeys sheets mappings (config\<lparr>joinType := Inner\<rparr>)
     = filter (\<lambda>k. length (slotsOf (buildIndex sheets (keyCandidates mappings config)) k) = length sheets)
         (finalKeys sheets mappings (config\<lparr>joinType := Outer\<rparr>))
   \<and> length (slotsOf (buildIndex sheets (keyCandidates mappings config)) k)
     = length (holders (keyCandidates mappings config) sheets k)
   \<and> set (finalKeys sheets mappings (config\<lparr>joinType := Inner\<rparr>))
     = {k \<in> set (finalKeys sheets mappings (config\<lparr>joinType := Outer\<rparr>)).
          \<forall>sheet\<in>set sheets. k \<in> set (sheetKeys (keyCandidates mappings config) sheet)}
   \<and> set (finalKeys sheets mappings (config\<lparr>joinType := Inner\<rparr>))
     \<subseteq> set (finalKeys sheets mappings (config\<lparr>joinType := Outer\<rparr>))
   \<and> distinct (finalKeys sheets mappings (config\<lparr>joinType := Outer\<rparr>))
   \<and> distinct (finalKeys sheets mappings (config\<lparr>joinType := Inner\<rparr>))
   \<and> (\<forall>sheet\<in>set sheets.
        length (finalKeys sheets mappings (config\<lparr>joinType := Inner\<rparr>))
          \<le> card (set (sheetKeys (keyCandidates mappings config) sheet)))
   \<and> length (joinData sheets mappings config) = length (finalKeys sheets mappings config)"
proof -
  let ?ids = "keyCandidates mappings config"
  let ?st = "buildIndex sheets ?ids"
  let ?outer = "finalKeys sheets mappings (config\<lparr>joinType := Outer\<rparr>)"
  let ?inner = "finalKeys sheets mappings (config\<lparr>joinType := Inner\<rparr>)"
  have ko: "keyCandidates mappings (config\<lparr>joinType := t\<rparr>) = ?ids" for t
    by (simp add: keyCandidates_def)
  have o: "?outer = allKeySet ?st"
    using finalKeys_outer[of "config\<lparr>joinType := Outer\<rparr>" sheets mappings] by (simp add: ko)
  have i: "?inner = filter (\<lambda>k. length (slotsOf ?st k) = length sheets) ?outer"
    using finalKeys_inner[of "config\<lparr>joinType := Inner\<rparr>" sheets mappings] by (simp add: ko o)
  have 1: "set ?outer = (\<Union>sheet\<in>set sheets. set (sheetKeys ?ids sheet))"
    unfolding o by (rule keys_outer)
  have 3: "length (slotsOf ?st k) = length (holders ?ids sheets k)"
    by (rule length_slots)
  have 4: "set ?inner = {k \<in> set ?outer. \<forall>sheet\<in>set sheets. k \<in> set (sheetKeys ?ids sheet)}"
    unfolding i by (simp add: length_slots holders_full)
  have 5: "set ?inner \<subseteq> set ?outer" unfolding i by auto
  have 6: "distinct ?outer" unfolding o by (rule keys_distinct)
  have 7: "distinct ?inner" unfolding i using 6 by simp
  have 8: "length ?inner \<le> card (set (sheetKeys ?ids sheet))" if "sheet \<in> set sheets" for sheet
  proof -
    have "set ?inner \<subseteq> set (sheetKeys ?ids sheet)" using 4 that by blast
    then have "card (set ?inner) \<le> card (set (sheetKeys ?ids sheet))"
      by (intro card_mono) simp_all
    then show ?thesis using 7 by (simp add: distinct_card)
  qed
  show ?thesis using 1 i 3 4 5 6 7 8 length_joinData by blast
qed

theorem join_key_sets_witness:
  "finalKeys
     [\<lparr>fileName = ''a'', sheetName = ''s'', headers = [''K''], rows = [[''K'' \<mapsto> Str ''1'']]\<rparr>,
      \<lparr>fileName = ''b'', sheetName = ''s'', headers = [''K''], rows = [[''K'' \<mapsto> Str ''1''], [''K'' \<mapsto> Str ''2'']]\<rparr>]
     [(''K'', [''a::s::K'', ''b::s::K''])]
     \<lparr>mergeMethod = Join, joinKey = ''K'', joinType = Outer, removeDuplicates = True\<rparr> = [''1'', ''2'']
   \<and> finalKeys
     [\<lparr>fileName = ''a'', sheetName = ''s'', headers = [''K''], rows = [[''K'' \<mapsto> Str ''1'']]\<rparr>,
      \<lparr>fileName = ''b'', sheetName = ''s'', headers = [''K''], rows = [[''K'' \<mapsto> Str ''1''], [''K'' \<mapsto> Str ''2'']]\<rparr>]
     [(''K'', [''a::s::K'', ''b::s::K''])]
     \<lparr>mergeMethod = Join, joinKey = ''K'', joinType = Inner, removeDuplicates = True\<rparr> = [''1'']
   \<and> length (finalKeys
     [\<lparr>fileName = ''a'', sheetName = ''s'', headers = [''K''], rows = [[''K'' \<mapsto> Str ''1'']]\<rparr>,
      \<lparr>fileName = ''b'', sheetName = ''s'', headers = [''K''], rows = [[''K'' \<mapsto> Str ''1''], [''K'' \<mapsto> Str ''2'']]\<rparr>]
     [(''K'', [''a::s::K'', ''b::s::K''])]
     \<lparr>mergeMethod = Join, joinKey = ''K'', joinType = Inner, removeDuplicates = True\<rparr>)
     \<le> card (set (sheetKeys [''a::s::K'', ''b::s::K'']
          \<lparr>fileName = ''a'', sheetName = ''s'', headers = [''K''], rows = [[''K'' \<mapsto> Str ''1'']]\<rparr>))"
proof -
  let ?A = "\<lparr>fileName = ''a'', sheetName = ''s'', headers = [''K''], rows = [[''K'' \<mapsto> Str ''1'']]\<rparr>"
  let ?B = "\<lparr>fileName = ''b'', sheetName = ''s'', headers = [''K''], rows = [[''K'' \<mapsto> Str ''1''], [''K'' \<mapsto> Str ''2'']]\<rparr>"
  let ?mp = "[(''K'', [''a::s::K'', ''b::s::K''])]"
  let ?cO = "\<lparr>mergeMethod = Join, joinKey = ''K'', joinType = Outer, removeDuplicates = True\<rparr>"
  let ?cI = "\<lparr>mergeMethod = Join, joinKey = ''K'', joinType = Inner, removeDuplicates = True\<rparr>"
  have o: "finalKeys [?A, ?B] ?mp ?cO = [''1'', ''2'']" by code_simp
  have i: "finalKeys [?A, ?B] ?mp ?cI = [''1'']" by code_simp
  have c: "keyCandidates ?mp ?cO = [''a::s::K'', ''b::s::K'']" by (simp add: keyCandidates_def)
  have u: "?cO\<lparr>joinType := Inner\<rparr> = ?cI" by simp
  have m: "?A \<in> set [?A, ?B]" by simp
  have "\<forall>sheet\<in>set [?A, ?B].
        length (finalKeys [?A, ?B] ?mp (?cO\<lparr>joinType := Inner\<rparr>))
          \<le> card (set (sheetKeys (keyCandidates ?mp ?cO) sheet))"
    using join_key_sets [of "[?A, ?B]" ?mp ?cO "''1''"] by blast
  then have "length (finalKeys [?A, ?B] ?mp ?cI) \<le> card (set (sheetKeys [''a::s::K'', ''b::s::K''] ?A))"
    unfolding u c using m by blast
  then show ?thesis using o i by blast
qed

lemma joinData_nth:
  "idx < length (finalKeys sheets mappings config) \<Longrightarrow>
   joinData sheets mappings config ! idx
     = joinRow sheets mappings (keyMap (buildIndex sheets (keyCandidates mappings config))) idx
         (finalKeys sheets mappings config ! idx)"
  by (simp add: joinData_def keyCandidates_def Let_def nth_enumerate_eq)

lemma joinRow_source:
  "joinRow sheets mappings (keyMap st) idx k ''_sourceFile''
     = (case slotsOf st k of [] \<Rightarrow> Some (Str ''Joined'') | (i, q) # _ \<Rightarrow> Some (getProp q ''_srcFile''))"
  "joinRow sheets mappings (keyMap st) idx k ''_sourceSheet''
     = (case slotsOf st k of [] \<Rightarrow> Some (Str ''Joined'') | (i, q) # _ \<Rightarrow> Some (getProp q ''_srcSheet''))"
  by (simp_all add: joinRow_def slotsOf_def Let_def split: list.splits)

lemma joinRow_other:
  assumes "field \<noteq> ''_sourceFile''" "field \<noteq> ''_sourceSheet''"
  shows "joinRow sheets mappings (keyMap st) idx k field
     = fold (\<lambda>(targetField, sourceMappingIds) newRow.
                 newRow(targetField \<mapsto> cleanAndFormatValue
                   (joinValue sheets (slotsOf st k) sourceMappingIds [0..<length sheets])))
          mappings [''id'' \<mapsto> Str (''joined-'' @ k @ ''-'' @ digitsOf idx)] field"
  using assms by (cases "slotsOf st k") (auto simp: joinRow_def slotsOf_def Let_def)

lemma joinRow_field:
  assumes "distinct (map fst mappings)" "(field, cands) \<in> set mappings"
    and "field \<noteq> ''_sourceFile''" "field \<noteq> ''_sourceSheet''"
  shows "joinRow sheets mappings (keyMap st) idx k field
     = Some (cleanAndFormatValue (joinValue sheets (slotsOf st k) cands [0..<length sheets]))"
  unfolding joinRow_other[OF assms(3,4)] using assms(1,2) by (rule fold_assign_field)

lemma sourceRow_tags:
  "getProp (sourceRow sheet r) ''_srcFile'' = Str (fileName sheet)"
  "getProp (sourceRow sheet r) ''_srcSheet'' = Str (sheetName sheet)"
  by (simp_all add: sourceRow_def getProp_def)

lemma sourceRow_other:
  "h \<noteq> ''_srcFile'' \<Longrightarrow> h \<noteq> ''_srcSheet'' \<Longrightarrow> getProp (sourceRow sheet r) h = getProp r h"
  by (simp add: sourceRow_def getProp_def)

lemma joinValue_skip:
  "(\<And>i. i \<in> set xs \<Longrightarrow> map_of entry i = None) \<Longrightarrow>
   joinValue sheets entry cands (xs @ ys) = joinValue sheets entry cands ys"
  by (induction xs) simp_all

lemma joinValue_no_slots: "joinValue sheets [] cands xs = Str []"
  by (induction xs) simp_all

lemma slotValue_hasValue: "slotValue sheet q ids \<noteq> Str [] \<Longrightarrow> hasValue (slotValue sheet q ids)"
  by (induction ids) (auto simp: hasValue_def split: prod.splits if_splits)

lemma trim_empty: "trim [] = []"
  by (simp add: trim_def)

lemma deriveKey_slotValue:
  assumes "deriveKey sheet r ids = Some k"
    and "fileName sheet \<noteq> []" "sheetName sheet \<noteq> []"
  shows "slotValue sheet (sourceRow sheet r) ids \<noteq> Str []"
  using assms(1)
proof (induction ids)
  case Nil
  then show ?case by simp
next
  case (Cons c ids)
  obtain fName sName header where p: "parseMappingId c = (fName, sName, header)"
    by (cases "parseMappingId c") auto
  show ?case
  proof (cases "fName = fileName sheet \<and> sName = sheetName sheet")
    case False
    then have "deriveKey sheet r ids = Some k" using Cons.prems p by auto
    then have "slotValue sheet (sourceRow sheet r) ids \<noteq> Str []" by (rule Cons.IH)
    then show ?thesis using False p by auto
  next
    case m: True
    show ?thesis
    proof (cases "header = ''_srcFile'' \<or> header = ''_srcSheet''")
      case True
      then have "getProp (sourceRow sheet r) header = Str (fileName sheet)
               \<or> getProp (sourceRow sheet r) header = Str (sheetName sheet)"
        using sourceRow_tags by auto
      then show ?thesis using m p assms(2,3) by auto
    next
      case False
      then have g: "getProp (sourceRow sheet r) header = getProp r header"
        by (simp add: sourceRow_other)
      show ?thesis
      proof (cases "getProp r header \<noteq> Undefined \<and> getProp r header \<noteq> Null
                    \<and> getProp r header \<noteq> Str []")
        case True
        then show ?thesis using m p g by simp
      next
        case False
        then have "deriveKey sheet r ids = Some k"
          using Cons.prems p by (auto simp: trim_empty split: if_splits)
        then have "slotValue sheet (sourceRow sheet r) ids \<noteq> Str []" by (rule Cons.IH)
        then show ?thesis using False m p g by auto
      qed
    qed
  qed
qed

lemma slot_origin:
  "(i, q) \<in> set (slotsOf (buildIndex sheets ids) k) \<Longrightarrow>
   \<exists>r. q = sourceRow (sheets ! i) r \<and> deriveKey (sheets ! i) r ids = Some k"
  using buildIndex_inv[of ids sheets] unfolding indexInv_def by blast

lemma holders_bound: "i \<in> set (holders ids sheets k) \<Longrightarrow> i < length sheets"
  by (simp add: holders_def)

lemma holders_hd_least:
  assumes "j \<in> set (holders ids sheets k)"
  shows "hd (holders ids sheets k) \<le> j"
proof -
  have s: "sorted (holders ids sheets k)"
    unfolding holders_def by (rule sorted_filter[of "\<lambda>x. x", simplified]) simp
  obtain a as where c: "holders ids sheets k = a # as"
    using assms by (cases "holders ids sheets k") auto
  show ?thesis using s assms unfolding c by auto
qed

text \<open>
  C4. For every output row of a join merge, \<open>_sourceFile\<close> and \<open>_sourceSheet\<close> are the
  identity of the first sheet, in sheet order, that holds a slot for the row's key: no
  sheet before it contributes a value to any field, it is the first slot every field's
  scan reads, and (for sheets with non-empty file and sheet names) its slot supplies the
  value of the join-key field. If no sheet holds a slot for the key, no slot contributes a
  value and both properties are the sentinel \<^verbatim>\<open>"Joined"\<close>. Every field of the output row
  holds the normalized value found by that scan.
\<close>

theorem join_provenance:
  assumes "idx < length (finalKeys sheets mappings config)"
    and "ids = keyCandidates mappings config"
    and "k = finalKeys sheets mappings config ! idx"
    and "out = joinData sheets mappings config ! idx"
    and "hs = holders ids sheets k"
    and "entry = slotsOf (buildIndex sheets ids) k"
  shows "map fst entry = hs
   \<and> (hs = [] \<longrightarrow>
        out ''_sourceFile'' = Some (Str ''Joined'') \<and> out ''_sourceSheet'' = Some (Str ''Joined'')
        \<and> (\<forall>cands. joinValue sheets entry cands [0..<length sheets] = Str []))
   \<and> (hs \<noteq> [] \<longrightarrow>
        out ''_sourceFile'' = Some (Str (fileName (sheets ! hd hs)))
        \<and> out ''_sourceSheet'' = Some (Str (sheetName (sheets ! hd hs)))
        \<and> (\<forall>cands. joinValue sheets entry cands [0..<length sheets]
                     = joinValue sheets entry cands [hd hs..<length sheets])
        \<and> ((\<forall>sheet\<in>set sheets. fileName sheet \<noteq> [] \<and> sheetName sheet \<noteq> []) \<longrightarrow>
             (\<exists>q. map_of entry (hd hs) = Some q
                  \<and> hasValue (slotValue (sheets ! hd hs) q ids)
                  \<and> joinValue sheets entry ids [0..<length sheets]
                      = slotValue (sheets ! hd hs) q ids)))
   \<and> (\<forall>field cands. distinct (map fst mappings) \<and> (field, cands) \<in> set mappings
          \<and> field \<noteq> ''_sourceFile'' \<and> field \<noteq> ''_sourceSheet'' \<longrightarrow>
        out field = Some (cleanAndFormatValue (joinValue sheets entry cands [0..<length sheets])))"
proof (intro conjI impI allI)
  let ?st = "buildIndex sheets ids"
  have out: "out = joinRow sheets mappings (keyMap ?st) idx k"
    using assms(1-4) by (simp add: joinData_nth)
  show mf: "map fst entry = hs"
    unfolding assms(5,6) by (rule slots_holders)
  {
    assume e: "hs = []"
    then have en: "entry = []" using mf by simp
    show "out ''_sourceFile'' = Some (Str ''Joined'')"
      unfolding out joinRow_source using en assms(6) by simp
    show "out ''_sourceSheet'' = Some (Str ''Joined'')"
      unfolding out joinRow_source using en assms(6) by simp
    show "joinValue sheets entry cands [0..<length sheets] = Str []" for cands
      unfolding en by (rule joinValue_no_slots)
  }
  {
    fix field cands
    assume "distinct (map fst mappings) \<and> (field, cands) \<in> set mappings
          \<and> field \<noteq> ''_sourceFile'' \<and> field \<noteq> ''_sourceSheet''"
    then show "out field = Some (cleanAndFormatValue (joinValue sheets entry cands [0..<length sheets]))"
      unfolding out assms(6) by (simp add: joinRow_field)
  }
  assume ne: "hs \<noteq> []"
  then obtain i q rest where en: "entry = (i, q) # rest"
    using mf by (cases entry) auto
  have i: "i = hd hs" using mf en by (cases hs) auto
  have "(i, q) \<in> set (slotsOf ?st k)" using en assms(6) by simp
  then obtain r where q: "q = sourceRow (sheets ! i) r" and dk: "deriveKey (sheets ! i) r ids = Some k"
    using slot_origin by blast
  show "out ''_sourceFile'' = Some (Str (fileName (sheets ! hd hs)))"
    unfolding out joinRow_source using en assms(6) q i by (simp add: sourceRow_tags)
  show "out ''_sourceSheet'' = Some (Str (sheetName (sheets ! hd hs)))"
    unfolding out joinRow_source using en assms(6) q i by (simp add: sourceRow_tags)
  have "i \<in> set hs" using i ne by simp
  then have il: "i < length sheets" unfolding assms(5) by (rule holders_bound)
  have before: "map_of entry j = None" if "j \<in> set [0..<i]" for j
  proof -
    have "j < hd hs" using that i by simp
    then have "j \<notin> set hs" using holders_hd_least[of j ids sheets k] assms(5) by auto
    then have "j \<notin> set (map fst entry)" using mf by simp
    then show ?thesis by (simp add: map_of_eq_None_iff)
  qed
  have split: "[0..<length sheets] = [0..<i] @ [i..<length sheets]"
    using il upt_add_eq_append[of 0 i "length sheets - i"] by simp
  show skip: "joinValue sheets entry cands [0..<length sheets]
      = joinValue sheets entry cands [hd hs..<length sheets]" for cands
    unfolding split i[symmetric] using before by (rule joinValue_skip)
  assume res: "\<forall>sheet\<in>set sheets. fileName sheet \<noteq> [] \<and> sheetName sheet \<noteq> []"
  have m: "map_of entry i = Some q" using en by simp
  have v: "slotValue (sheets ! i) q ids \<noteq> Str []"
    unfolding q using dk res il by (intro deriveKey_slotValue) auto
  then have hv: "hasValue (slotValue (sheets ! i) q ids)" by (rule slotValue_hasValue)
  have "joinValue sheets entry ids [i..<length sheets] = slotValue (sheets ! i) q ids"
    using il m v by (simp add: upt_conv_Cons)
  then have "joinValue sheets entry ids [0..<length sheets] = slotValue (sheets ! i) q ids"
    using skip[of ids] i by simp
  then show "\<exists>q. map_of entry (hd hs) = Some q
                  \<and> hasValue (slotValue (sheets ! hd hs) q ids)
                  \<and> joinValue sheets entry ids [0..<length sheets]
                      = slotValue (sheets ! hd hs) q ids"
    using m hv i by auto
qed

theorem join_provenance_witness:
  "1 < length (finalKeys
     [\<lparr>fileName = ''a'', sheetName = ''s'', headers = [''K''], rows = [[''K'' \<mapsto> Str ''1'']]\<rparr>,
      \<lparr>fileName = ''b'', sheetName = ''t'', headers = [''K''], rows = [[''K'' \<mapsto> Str ''1''], [''K'' \<mapsto> Str ''2'']]\<rparr>]
     [(''K'', [''a::s::K'', ''b::t::K''])]
     \<lparr>mergeMethod = Join, joinKey = ''K'', joinType = Outer, removeDuplicates = True\<rparr>)
   \<and> holders [''a::s::K'', ''b::t::K'']
     [\<lparr>fileName = ''a'', sheetName = ''s'', headers = [''K''], rows = [[''K'' \<mapsto> Str ''1'']]\<rparr>,
      \<lparr>fileName = ''b'', sheetName = ''t'', headers = [''K''], rows = [[''K'' \<mapsto> Str ''1''], [''K'' \<mapsto> Str ''2'']]\<rparr>]
     ''2'' = [1]
   \<and> (joinData
     [\<lparr>fileName = ''a'', sheetName = ''s'', headers = [''K''], rows = [[''K'' \<mapsto> Str ''1'']]\<rparr>,
      \<lparr>fileName = ''b'', sheetName = ''t'', headers = [''K''], rows = [[''K'' \<mapsto> Str ''1''], [''K'' \<mapsto> Str ''2'']]\<rparr>]
     [(''K'', [''a::s::K'', ''b::t::K''])]
     \<lparr>mergeMethod = Join, joinKey = ''K'', joinType = Outer, removeDuplicates = True\<rparr> ! 1) ''_sourceFile''
       = Some (Str ''b'')
   \<and> (joinData
     [\<lparr>fileName = ''a'', sheetName = ''s'', headers = [''K''], rows = [[''K'' \<mapsto> Str ''1'']]\<rparr>,
      \<lparr>fileName = ''b'', sheetName = ''t'', headers = [''K''], rows = [[''K'' \<mapsto> Str ''1''], [''K'' \<mapsto> Str ''2'']]\<rparr>]
     [(''K'', [''a::s::K'', ''b::t::K''])]
     \<lparr>mergeMethod = Join, joinKey = ''K'', joinType = Outer, removeDuplicates = True\<rparr> ! 1) ''_sourceSheet''
       = Some (Str ''t'')
   \<and> (joinData
     [\<lparr>fileName = ''a'', sheetName = ''s'', headers = [''K''], rows = [[''K'' \<mapsto> Str ''1'']]\<rparr>,
      \<lparr>fileName = ''b'', sheetName = ''t'', headers = [''K''], rows = [[''K'' \<mapsto> Str ''1''], [''K'' \<mapsto> Str ''2'']]\<rparr>]
     [(''K'', [''a::s::K'', ''b::t::K''])]
     \<lparr>mergeMethod = Join, joinKey = ''K'', joinType = Outer, removeDuplicates = True\<rparr> ! 1) ''K''
       = Some (Num (Fin 2))
   \<and> hasValue (joinValue
     [\<lparr>fileName = ''a'', sheetName = ''s'', headers = [''K''], rows = [[''K'' \<mapsto> Str ''1'']]\<rparr>,
      \<lparr>fileName = ''b'', sheetName = ''t'', headers = [''K''], rows = [[''K'' \<mapsto> Str ''1''], [''K'' \<mapsto> Str ''2'']]\<rparr>]
     (slotsOf (buildIndex
        [\<lparr>fileName = ''a'', sheetName = ''s'', headers = [''K''], rows = [[''K'' \<mapsto> Str ''1'']]\<rparr>,
         \<lparr>fileName = ''b'', sheetName = ''t'', headers = [''K''], rows = [[''K'' \<mapsto> Str ''1''], [''K'' \<mapsto> Str ''2'']]\<rparr>]
        [''a::s::K'', ''b::t::K'']) ''2'')
     [''a::s::K'', ''b::t::K''] [0..<2])
   \<and> holders [''a::s::K'']
     [\<lparr>fileName = ''a'', sheetName = ''s'', headers = [''K''], rows = [[''K'' \<mapsto> Str ''  '']]\<rparr>] [] = []
   \<and> (joinData
     [\<lparr>fileName = ''a'', sheetName = ''s'', headers = [''K''], rows = [[''K'' \<mapsto> Str ''  '']]\<rparr>]
     [(''K'', [''a::s::K''])]
     \<lparr>mergeMethod = Join, joinKey = ''K'', joinType = Left, removeDuplicates = True\<rparr> ! 0) ''_sourceFile''
       = Some (Str ''Joined'')"
proof -
  let ?A = "\<lparr>fileName = ''a'', sheetName = ''s'', headers = [''K''], rows = [[''K'' \<mapsto> Str ''1'']]\<rparr>"
  let ?B = "\<lparr>fileName = ''b'', sheetName = ''t'', headers = [''K''], rows = [[''K'' \<mapsto> Str ''1''], [''K'' \<mapsto> Str ''2'']]\<rparr>"
  let ?mp = "[(''K'', [''a::s::K'', ''b::t::K''])]"
  let ?cO = "\<lparr>mergeMethod = Join, joinKey = ''K'', joinType = Outer, removeDuplicates = True\<rparr>"
  let ?ids = "[''a::s::K'', ''b::t::K'']"
  have fk: "finalKeys [?A, ?B] ?mp ?cO = [''1'', ''2'']" by code_simp
  have p1: "1 < length (finalKeys [?A, ?B] ?mp ?cO)" unfolding fk by simp
  have p2: "?ids = keyCandidates ?mp ?cO" by (simp add: keyCandidates_def)
  have p3: "''2'' = finalKeys [?A, ?B] ?mp ?cO ! 1" unfolding fk by simp
  have p5: "[1] = holders ?ids [?A, ?B] ''2''" by code_simp
  note t = join_provenance [OF p1 p2 p3 refl p5 refl]
  have f: "(joinData [?A, ?B] ?mp ?cO ! 1) ''_sourceFile'' = Some (Str ''b'')"
    and s: "(joinData [?A, ?B] ?mp ?cO ! 1) ''_sourceSheet'' = Some (Str ''t'')"
    using t by simp_all
  let ?entry = "slotsOf (buildIndex [?A, ?B] ?ids) ''2''"
  have l2: "length [?A, ?B] = 2" by simp
  have d: "distinct (map fst ?mp) \<and> (''K'', ?ids) \<in> set ?mp
           \<and> ''K'' \<noteq> ''_sourceFile'' \<and> ''K'' \<noteq> ''_sourceSheet''" by simp
  have "(joinData [?A, ?B] ?mp ?cO ! 1) ''K''
      = Some (cleanAndFormatValue (joinValue [?A, ?B] ?entry ?ids [0..<length [?A, ?B]]))"
    using t d by blast
  moreover have "cleanAndFormatValue (joinValue [?A, ?B] ?entry ?ids [0..<2]) = Num (Fin 2)"
    by code_simp
  ultimately have kf: "(joinData [?A, ?B] ?mp ?cO ! 1) ''K'' = Some (Num (Fin 2))"
    unfolding l2 by simp
  have ne: "\<forall>sheet\<in>set [?A, ?B]. fileName sheet \<noteq> [] \<and> sheetName sheet \<noteq> []" by simp
  have "[1] \<noteq> ([]::nat list)" by simp
  then have "\<exists>q. map_of ?entry (hd [1]) = Some q
      \<and> hasValue (slotValue ([?A, ?B] ! hd [1]) q ?ids)
      \<and> joinValue [?A, ?B] ?entry ?ids [0..<length [?A, ?B]] = slotValue ([?A, ?B] ! hd [1]) q ?ids"
    using t ne by blast
  then have hv: "hasValue (joinValue [?A, ?B] ?entry ?ids [0..<2])"
    unfolding l2 by auto
  let ?C = "\<lparr>fileName = ''a'', sheetName = ''s'', headers = [''K''], rows = [[''K'' \<mapsto> Str ''  '']]\<rparr>"
  let ?mq = "[(''K'', [''a::s::K''])]"
  let ?cL = "\<lparr>mergeMethod = Join, joinKey = ''K'', joinType = Left, removeDuplicates = True\<rparr>"
  have gk: "finalKeys [?C] ?mq ?cL = [[]]" by code_simp
  have q1: "0 < length (finalKeys [?C] ?mq ?cL)" unfolding gk by simp
  have q2: "[''a::s::K''] = keyCandidates ?mq ?cL" by (simp add: keyCandidates_def)
  have q3: "[] = finalKeys [?C] ?mq ?cL ! 0" unfolding gk by simp
  have q5: "[] = holders [''a::s::K''] [?C] []" by code_simp
  note u = join_provenance [OF q1 q2 q3 refl q5 refl]
  have j: "(joinData [?C] ?mq ?cL ! 0) ''_sourceFile'' = Some (Str ''Joined'')"
    using u by simp
  show ?thesis using p1 p5[symmetric] f s kf hv q5[symmetric] j by blast
qed

text \<open>
  C2 (the code at two failing inputs). The claim says the left join's keys are the derived
  join keys of the first sheet's rows, and that a row without a join key contributes
  nothing. The \<^verbatim>\<open>'left'\<close> branch tests the key cell for truthiness instead of repeating
  the test of the key index. A first-sheet row whose key cell is the number 0 has the
  derived key \<^verbatim>\<open>"0"\<close>, yet the left join has no key for it; a first-sheet row whose key
  cell is blank has no derived key and is not in the key index, yet the left join outputs
  a row for the empty key.
\<close>

theorem left_join_key_mismatch:
  "sheetKeys [''a::s::K'']
     \<lparr>fileName = ''a'', sheetName = ''s'', headers = [''K''], rows = [[''K'' \<mapsto> Num (Fin 0)]]\<rparr> = [''0'']
   \<and> finalKeys
     [\<lparr>fileName = ''a'', sheetName = ''s'', headers = [''K''], rows = [[''K'' \<mapsto> Num (Fin 0)]]\<rparr>]
     [(''K'', [''a::s::K''])]
     \<lparr>mergeMethod = Join, joinKey = ''K'', joinType = Left, removeDuplicates = True\<rparr> = []
   \<and> sheetKeys [''a::s::K'']
     \<lparr>fileName = ''a'', sheetName = ''s'', headers = [''K''], rows = [[''K'' \<mapsto> Str ''  '']]\<rparr> = []
   \<and> allKeySet (buildIndex
     [\<lparr>fileName = ''a'', sheetName = ''s'', headers = [''K''], rows = [[''K'' \<mapsto> Str ''  '']]\<rparr>]
     [''a::s::K'']) = []
   \<and> finalKeys
     [\<lparr>fileName = ''a'', sheetName = ''s'', headers = [''K''], rows = [[''K'' \<mapsto> Str ''  '']]\<rparr>]
     [(''K'', [''a::s::K''])]
     \<lparr>mergeMethod = Join, joinKey = ''K'', joinType = Left, removeDuplicates = True\<rparr> = [[]]
   \<and> length (joinData
     [\<lparr>fileName = ''a'', sheetName = ''s'', headers = [''K''], rows = [[''K'' \<mapsto> Str ''  '']]\<rparr>]
     [(''K'', [''a::s::K''])]
     \<lparr>mergeMethod = Join, joinKey = ''K'', joinType = Left, removeDuplicates = True\<rparr>) = 1"
  by (intro conjI; code_simp)

text \<open>
  Where the two tests agree on the key cells of the first sheet, the left join's keys are
  the derived keys of the first sheet in row order, each at its first occurrence.
\<close>

lemma leftKey_deriveKey:
  assumes "\<And>c. c \<in> set ids \<Longrightarrow>
     truthy (getProp r (snd (snd (parseMappingId c))))
       = (getProp r (snd (snd (parseMappingId c))) \<noteq> Undefined
          \<and> getProp r (snd (snd (parseMappingId c))) \<noteq> Null
          \<and> trim (jsString (getProp r (snd (snd (parseMappingId c))))) \<noteq> [])"
  shows "leftKey sheet r ids = deriveKey sheet r ids"
  using assms
proof (induction ids)
  case Nil
  then show ?case by simp
next
  case (Cons c ids)
  obtain fName sName header where p: "parseMappingId c = (fName, sName, header)"
    by (cases "parseMappingId c") auto
  have "leftKey sheet r ids = deriveKey sheet r ids" using Cons by simp
  then show ?case using Cons.prems[of c] p by simp
qed

lemma finalKeys_left_agree:
  assumes "joinType config = Left"
    and "\<And>r c. r \<in> set (rows sheet0) \<Longrightarrow> c \<in> set (keyCandidates mappings config) \<Longrightarrow>
     truthy (getProp r (snd (snd (parseMappingId c))))
       = (getProp r (snd (snd (parseMappingId c))) \<noteq> Undefined
          \<and> getProp r (snd (snd (parseMappingId c))) \<noteq> Null
          \<and> trim (jsString (getProp r (snd (snd (parseMappingId c))))) \<noteq> [])"
  shows "finalKeys (sheet0 # others) mappings config
     = arrayFromSet (sheetKeys (keyCandidates mappings config) sheet0)"
proof -
  have "List.map_filter (\<lambda>r. leftKey sheet0 r (keyCandidates mappings config)) (rows sheet0)
      = List.map_filter (\<lambda>r. deriveKey sheet0 r (keyCandidates mappings config)) (rows sheet0)"
    unfolding map_filter_def using assms(2) by (intro arg_cong[where f="map _"] filter_cong refl map_cong)
      (simp_all add: leftKey_deriveKey)
  then show ?thesis using assms(1)
    by (simp add: finalKeys_def sheetKeys_def keyCandidates_def Let_def)
qed

lemma set_fold_setAdd: "set (fold (\<lambda>x acc. setAdd acc x) xs acc) = set acc \<union> set xs"
  by (induction xs arbitrary: acc) (auto simp: setAdd_def)

lemma distinct_fold_setAdd: "distinct acc \<Longrightarrow> distinct (fold (\<lambda>x acc. setAdd acc x) xs acc)"
  by (induction xs arbitrary: acc) (auto simp: setAdd_def)

lemma arrayFromSet_set: "set (arrayFromSet xs) = set xs"
  by (simp add: arrayFromSet_def set_fold_setAdd)

lemma arrayFromSet_distinct: "distinct (arrayFromSet xs)"
  by (simp add: arrayFromSet_def distinct_fold_setAdd)

section \<open>Properties of filter and split\<close>

text \<open>
  The string tests of the filter are the prefix, suffix and contiguous-sublist relations.
\<close>

lemma isPrefixOf_prefix: "isPrefixOf p s \<longleftrightarrow> prefix p s"
proof
  assume "isPrefixOf p s"
  then have "s = p @ drop (length p) s"
    unfolding isPrefixOf_def by (metis append_take_drop_id)
  then show "prefix p s" by (rule prefixI)
next
  assume "prefix p s"
  then obtain zs where "s = p @ zs" by (auto simp: prefix_def)
  then show "isPrefixOf p s" by (simp add: isPrefixOf_def)
qed

lemma startsWith_prefix: "startsWith s p \<longleftrightarrow> prefix p s"
  by (simp add: startsWith_def isPrefixOf_prefix)

lemma endsWith_suffix: "endsWith s p \<longleftrightarrow> suffix p s"
  by (simp add: endsWith_def isPrefixOf_prefix suffix_to_prefix)

lemma includesStr_sublist: "includesStr s p \<longleftrightarrow> sublist p s"
  by (induction s) (simp_all add: isPrefixOf_prefix sublist_Cons_right)

lemma subseq_splitFilter:
  "subseq (splitFilter lc currentData splitField splitType splitOperator splitValue) currentData"
  by (simp add: splitFilter_def)

lemma splitMatches_NaN:
  "parseFloat (jsString cellValue) = NaN \<or> parseFloat splitValue = NaN \<Longrightarrow>
   \<not> splitMatches lc TNumber op splitValue cellValue"
  by (auto simp: splitMatches_def Let_def)

lemma splitMatches_number:
  "splitMatches lc TNumber op splitValue cellValue
     = (parseFloat (jsString cellValue) \<noteq> NaN \<and> parseFloat splitValue \<noteq> NaN
        \<and> (case op of
             Eq \<Rightarrow> numEq (parseFloat (jsString cellValue)) (parseFloat splitValue)
           | Neq \<Rightarrow> \<not> numEq (parseFloat (jsString cellValue)) (parseFloat splitValue)
           | Gt \<Rightarrow> numLess (parseFloat splitValue) (parseFloat (jsString cellValue))
           | Lt \<Rightarrow> numLess (parseFloat (jsString cellValue)) (parseFloat splitValue)
           | Gte \<Rightarrow> numLess (parseFloat splitValue) (parseFloat (jsString cellValue))
                    \<or> numEq (parseFloat (jsString cellValue)) (parseFloat splitValue)
           | Lte \<Rightarrow> numLess (parseFloat (jsString cellValue)) (parseFloat splitValue)
                    \<or> numEq (parseFloat (jsString cellValue)) (parseFloat splitValue)
           | _ \<Rightarrow> False))"
  by (simp add: splitMatches_def Let_def)

lemma splitMatches_string:
  "splitMatches lc TString op splitValue cellValue
     = (case op of
          Eq \<Rightarrow> lc (jsString (if cellValue = Undefined \<or> cellValue = Null then Str [] else cellValue))
                 = lc splitValue
        | Neq \<Rightarrow> lc (jsString (if cellValue = Undefined \<or> cellValue = Null then Str [] else cellValue))
                 \<noteq> lc splitValue
        | Contains \<Rightarrow>
            sublist (lc splitValue)
              (lc (jsString (if cellValue = Undefined \<or> cellValue = Null then Str [] else cellValue)))
        | Not_contains \<Rightarrow>
            \<not> sublist (lc splitValue)
              (lc (jsString (if cellValue = Undefined \<or> cellValue = Null then Str [] else cellValue)))
        | Starts_with \<Rightarrow>
            prefix (lc splitValue)
              (lc (jsString (if cellValue = Undefined \<or> cellValue = Null then Str [] else cellValue)))
        | Ends_with \<Rightarrow>
            suffix (lc splitValue)
              (lc (jsString (if cellValue = Undefined \<or> cellValue = Null then Str [] else cellValue)))
        | _ \<Rightarrow> False)"
  by (cases op)
     (simp_all add: splitMatches_def Let_def includesStr_sublist startsWith_prefix endsWith_suffix)

lemma splitMatches_finite:
  assumes "parseFloat (jsString cellValue) = Fin x" "parseFloat splitValue = Fin y"
  shows "splitMatches lc TNumber Eq splitValue cellValue \<longleftrightarrow> x = y"
    and "splitMatches lc TNumber Neq splitValue cellValue \<longleftrightarrow> x \<noteq> y"
    and "splitMatches lc TNumber Gt splitValue cellValue \<longleftrightarrow> y < x"
    and "splitMatches lc TNumber Lt splitValue cellValue \<longleftrightarrow> x < y"
    and "splitMatches lc TNumber Gte splitValue cellValue \<longleftrightarrow> y \<le> x"
    and "splitMatches lc TNumber Lte splitValue cellValue \<longleftrightarrow> x \<le> y"
  unfolding splitMatches_number assms by (auto simp: numEq_def)

lemma splitMatches_lower:
  assumes "lc s = lc s'" "lc v = lc v'"
  shows "splitMatches lc TString op v (Str s) = splitMatches lc TString op v' (Str s')"
  unfolding splitMatches_string using assms by (cases op) simp_all

lemma executeSplit_filtered:
  "filtered (executeSplit lc currentData visibleFields splitField splitType splitOperator splitValue)
     = (if splitField = [] \<or> splitValue = [] then []
        else splitFilter lc currentData splitField splitType splitOperator splitValue)"
  by (simp add: executeSplit_def Let_def)

lemma executeSplit_exported:
  "exported (executeSplit lc currentData visibleFields splitField splitType splitOperator splitValue)
     = Some (out, name) \<Longrightarrow>
   out = map (exportRow visibleFields)
           (splitFilter lc currentData splitField splitType splitOperator splitValue)"
  by (auto simp: executeSplit_def Let_def split: if_splits)

text \<open>
  C8. For every row set, field, operator and compare value, whatever the lower-casing
  function \<open>lc\<close> is: the rows that pass the filter are a subsequence of the input rows
  (the same rows, in order), and they are exactly the input rows whose cell satisfies the
  predicate. Under a numeric comparison a row whose cell does not parse as a number is
  excluded whatever the operator is (and so is every row when the compare value does not
  parse); when the cell parses to \<open>x\<close> and the compare value to \<open>y\<close>, the operators eq,
  neq, gt, lt, gte, lte hold exactly when \<open>x = y\<close>, \<open>x \<noteq> y\<close>, \<open>x > y\<close>, \<open>x < y\<close>,
  \<open>x \<ge> y\<close>, \<open>x \<le> y\<close>, and the four string-only operators never hold. Under a string
  comparison the cell (with null and undefined taken as the empty string) and the compare
  value are lower-cased, and eq, neq, contains, not_contains, starts_with, ends_with hold
  exactly when the lowered cell equals, differs from, contains, does not contain, starts
  with, ends with the lowered compare value; gt, lt, gte, lte never hold. Hence two cells
  and two compare values with the same lower-case forms are treated alike. What
  \<^verbatim>\<open>executeSplit\<close> exports is the projection of exactly the rows that passed.
\<close>

theorem filter_split:
  "subseq (splitFilter lc currentData splitField splitType splitOperator splitValue) currentData
   \<and> set (splitFilter lc currentData splitField splitType splitOperator splitValue)
       = {r \<in> set currentData. splitMatches lc splitType splitOperator splitValue (getProp r splitField)}
   \<and> (parseFloat (jsString cellValue) = NaN \<or> parseFloat splitValue = NaN \<longrightarrow>
        \<not> splitMatches lc TNumber op splitValue cellValue)
   \<and> (parseFloat (jsString cellValue) = Fin x \<and> parseFloat splitValue = Fin y \<longrightarrow>
        (splitMatches lc TNumber Eq splitValue cellValue \<longleftrightarrow> x = y)
        \<and> (splitMatches lc TNumber Neq splitValue cellValue \<longleftrightarrow> x \<noteq> y)
        \<and> (splitMatches lc TNumber Gt splitValue cellValue \<longleftrightarrow> y < x)
        \<and> (splitMatches lc TNumber Lt splitValue cellValue \<longleftrightarrow> x < y)
        \<and> (splitMatches lc TNumber Gte splitValue cellValue \<longleftrightarrow> y \<le> x)
        \<and> (splitMatches lc TNumber Lte splitValue cellValue \<longleftrightarrow> x \<le> y))
   \<and> (op \<in> {Contains, Not_contains, Starts_with, Ends_with} \<longrightarrow>
        \<not> splitMatches lc TNumber op splitValue cellValue)
   \<and> (strCell = lc (jsString (if cellValue = Undefined \<or> cellValue = Null then Str [] else cellValue))
        \<and> strCompare = lc splitValue \<longrightarrow>
        (splitMatches lc TString Eq splitValue cellValue \<longleftrightarrow> strCell = strCompare)
        \<and> (splitMatches lc TString Neq splitValue cellValue \<longleftrightarrow> strCell \<noteq> strCompare)
        \<and> (splitMatches lc TString Contains splitValue cellValue \<longleftrightarrow> sublist strCompare strCell)
        \<and> (splitMatches lc TString Not_contains splitValue cellValue \<longleftrightarrow> \<not> sublist strCompare strCell)
        \<and> (splitMatches lc TString Starts_with splitValue cellValue \<longleftrightarrow> prefix strCompare strCell)
        \<and> (splitMatches lc TString Ends_with splitValue cellValue \<longleftrightarrow> suffix strCompare strCell))
   \<and> (op \<in> {Gt, Lt, Gte, Lte} \<longrightarrow> \<not> splitMatches lc TString op splitValue cellValue)
   \<and> (lc s = lc s' \<and> lc v = lc v' \<longrightarrow>
        splitMatches lc TString op v (Str s) = splitMatches lc TString op v' (Str s'))
   \<and> filtered (executeSplit lc currentData visibleFields splitField splitType splitOperator splitValue)
       = (if splitField = [] \<or> splitValue = [] then []
          else splitFilter lc currentData splitField splitType splitOperator splitValue)
   \<and> (\<forall>out name.
        exported (executeSplit lc currentData visibleFields splitField splitType splitOperator splitValue)
          = Some (out, name) \<longrightarrow>
        out = map (exportRow visibleFields)
                (splitFilter lc currentData splitField splitType splitOperator splitValue))"
proof (intro conjI impI allI)
  show "subseq (splitFilter lc currentData splitField splitType splitOperator splitValue) currentData"
    by (rule subseq_splitFilter)
  show "set (splitFilter lc currentData splitField splitType splitOperator splitValue)
       = {r \<in> set currentData. splitMatches lc splitType splitOperator splitValue (getProp r splitField)}"
    by (simp add: splitFilter_def)
  show "filtered (executeSplit lc currentData visibleFields splitField splitType splitOperator splitValue)
       = (if splitField = [] \<or> splitValue = [] then []
          else splitFilter lc currentData splitField splitType splitOperator splitValue)"
    by (rule executeSplit_filtered)
next
  assume "parseFloat (jsString cellValue) = NaN \<or> parseFloat splitValue = NaN"
  then show "\<not> splitMatches lc TNumber op splitValue cellValue" by (rule splitMatches_NaN)
next
  assume h: "parseFloat (jsString cellValue) = Fin x \<and> parseFloat splitValue = Fin y"
  then have a: "parseFloat (jsString cellValue) = Fin x" and b: "parseFloat splitValue = Fin y"
    by simp_all
  show "splitMatches lc TNumber Eq splitValue cellValue \<longleftrightarrow> x = y"
    by (rule splitMatches_finite(1)[OF a b])
  show "splitMatches lc TNumber Neq splitValue cellValue \<longleftrightarrow> x \<noteq> y"
    by (rule splitMatches_finite(2)[OF a b])
  show "splitMatches lc TNumber Gt splitValue cellValue \<longleftrightarrow> y < x"
    by (rule splitMatches_finite(3)[OF a b])
  show "splitMatches lc TNumber Lt splitValue cellValue \<longleftrightarrow> x < y"
    by (rule splitMatches_finite(4)[OF a b])
  show "splitMatches lc TNumber Gte splitValue cellValue \<longleftrightarrow> y \<le> x"
    by (rule splitMatches_finite(5)[OF a b])
  show "splitMatches lc TNumber Lte splitValue cellValue \<longleftrightarrow> x \<le> y"
    by (rule splitMatches_finite(6)[OF a b])
next
  assume "op \<in> {Contains, Not_contains, Starts_with, Ends_with}"
  then show "\<not> splitMatches lc TNumber op splitValue cellValue"
    by (auto simp: splitMatches_number)
next
  assume h: "strCell = lc (jsString (if cellValue = Undefined \<or> cellValue = Null then Str [] else cellValue))
        \<and> strCompare = lc splitValue"
  show "splitMatches lc TString Eq splitValue cellValue \<longleftrightarrow> strCell = strCompare"
    by (simp add: splitMatches_string h)
  show "splitMatches lc TString Neq splitValue cellValue \<longleftrightarrow> strCell \<noteq> strCompare"
    by (simp add: splitMatches_string h)
  show "splitMatches lc TString Contains splitValue cellValue \<longleftrightarrow> sublist strCompare strCell"
    by (simp add: splitMatches_string h)
  show "splitMatches lc TString Not_contains splitValue cellValue \<longleftrightarrow> \<not> sublist strCompare strCell"
    by (simp add: splitMatches_string h)
  show "splitMatches lc TString Starts_with splitValue cellValue \<longleftrightarrow> prefix strCompare strCell"
    by (simp add: splitMatches_string h)
  show "splitMatches lc TString Ends_with splitValue cellValue \<longleftrightarrow> suffix strCompare strCell"
    by (simp add: splitMatches_string h)
next
  assume "op \<in> {Gt, Lt, Gte, Lte}"
  then show "\<not> splitMatches lc TString op splitValue cellValue"
    by (auto simp: splitMatches_string)
next
  assume h: "lc s = lc s' \<and> lc v = lc v'"
  show "splitMatches lc TString op v (Str s) = splitMatches lc TString op v' (Str s')"
    by (rule splitMatches_lower) (simp_all add: h)
next
  fix out name
  assume "exported (executeSplit lc currentData visibleFields splitField splitType splitOperator splitValue)
          = Some (out, name)"
  then show "out = map (exportRow visibleFields)
                (splitFilter lc currentData splitField splitType splitOperator splitValue)"
    by (rule executeSplit_exported)
qed

text \<open>
  Three rows with the ages 12, 5 and abc, and the cities Tokyo, Osaka and none, filtered
  with the ASCII lower-casing. Age \<open>\<ge>\<close> 10 keeps the first row only: the second parses
  and is too small, the third does not parse. City contains KY keeps the first row only.
\<close>

theorem filter_split_witness:
  "parseFloat (jsString (Str ''12'')) = Fin 12 \<and> parseFloat (jsString (Str ''5'')) = Fin 5
   \<and> parseFloat ''10'' = Fin 10 \<and> parseFloat (jsString (Str ''abc'')) = NaN
   \<and> splitMatches asciiLower TNumber Gte ''10'' (Str ''12'')
   \<and> \<not> splitMatches asciiLower TNumber Gte ''10'' (Str ''5'')
   \<and> splitMatches asciiLower TNumber Lt ''10'' (Str ''5'')
   \<and> \<not> splitMatches asciiLower TNumber Eq ''10'' (Str ''5'')
   \<and> \<not> splitMatches asciiLower TNumber Neq ''10'' (Str ''abc'')
   \<and> \<not> splitMatches asciiLower TNumber Contains ''1'' (Str ''12'')
   \<and> splitFilter asciiLower
        [[''Age'' \<mapsto> Str ''12'', ''City'' \<mapsto> Str ''Tokyo''],
         [''Age'' \<mapsto> Str ''5'', ''City'' \<mapsto> Str ''Osaka''],
         [''Age'' \<mapsto> Str ''abc'']] ''Age'' TNumber Gte ''10''
       = [[''Age'' \<mapsto> Str ''12'', ''City'' \<mapsto> Str ''Tokyo'']]
   \<and> asciiLower (jsString (Str ''Tokyo'')) = ''tokyo'' \<and> asciiLower (jsString (Str ''Osaka'')) = ''osaka''
   \<and> asciiLower ''KY'' = ''ky'' \<and> asciiLower ''TOKYO'' = ''tokyo''
   \<and> splitMatches asciiLower TString Contains ''KY'' (Str ''Tokyo'')
   \<and> \<not> splitMatches asciiLower TString Contains ''KY'' (Str ''Osaka'')
   \<and> splitMatches asciiLower TString Eq ''TOKYO'' (Str ''Tokyo'')
   \<and> \<not> splitMatches asciiLower TString Eq ''TOKYO'' (Str ''Osaka'')
   \<and> splitMatches asciiLower TString Starts_with ''TOKYO'' (Str ''Tokyo'')
   \<and> \<not> splitMatches asciiLower TString Ends_with ''KY'' (Str ''Tokyo'')
   \<and> \<not> splitMatches asciiLower TString Gt ''KY'' (Str ''Tokyo'')
   \<and> splitFilter asciiLower
        [[''Age'' \<mapsto> Str ''12'', ''City'' \<mapsto> Str ''Tokyo''],
         [''Age'' \<mapsto> Str ''5'', ''City'' \<mapsto> Str ''Osaka''],
         [''Age'' \<mapsto> Str ''abc'']] ''City'' TString Contains ''KY''
       = [[''Age'' \<mapsto> Str ''12'', ''City'' \<mapsto> Str ''Tokyo'']]
   \<and> exported (executeSplit asciiLower
        [[''Age'' \<mapsto> Str ''12'', ''City'' \<mapsto> Str ''Tokyo''],
         [''Age'' \<mapsto> Str ''5'', ''City'' \<mapsto> Str ''Osaka''],
         [''Age'' \<mapsto> Str ''abc'']] [] ''Age'' TNumber Gte ''10'')
       = Some (map (exportRow []) [[''Age'' \<mapsto> Str ''12'', ''City'' \<mapsto> Str ''Tokyo'']],
               ''Split_Age_Gte_10'')"
proof -
  let ?r1 = "[''Age'' \<mapsto> Str ''12'', ''City'' \<mapsto> Str ''Tokyo'']"
  let ?r2 = "[''Age'' \<mapsto> Str ''5'', ''City'' \<mapsto> Str ''Osaka'']"
  let ?r3 = "[''Age'' \<mapsto> Str ''abc'']"
  have p12: "parseFloat (jsString (Str ''12'')) = Fin 12" by code_simp
  have p5: "parseFloat (jsString (Str ''5'')) = Fin 5" by code_simp
  have p10: "parseFloat ''10'' = Fin 10" by code_simp
  have pa: "parseFloat (jsString (Str ''abc'')) = NaN" by code_simp
  note n12 = filter_split [where lc = asciiLower and cellValue = "Str ''12''" and splitValue = "''10''"
      and x = 12 and y = 10 and op = Contains]
  note n5 = filter_split [where lc = asciiLower and cellValue = "Str ''5''" and splitValue = "''10''"
      and x = 5 and y = 10]
  note na = filter_split [where lc = asciiLower and cellValue = "Str ''abc''" and splitValue = "''10''"
      and op = Neq]
  have "splitMatches asciiLower TNumber Gte ''10'' (Str ''12'') \<longleftrightarrow> (10::rat) \<le> 12"
    using n12 p12 p10 by blast
  then have m1: "splitMatches asciiLower TNumber Gte ''10'' (Str ''12'')" by simp
  have "splitMatches asciiLower TNumber Gte ''10'' (Str ''5'') \<longleftrightarrow> (10::rat) \<le> 5"
    using n5 p5 p10 by blast
  then have m2: "\<not> splitMatches asciiLower TNumber Gte ''10'' (Str ''5'')" by simp
  have "splitMatches asciiLower TNumber Lt ''10'' (Str ''5'') \<longleftrightarrow> (5::rat) < 10"
    using n5 p5 p10 by blast
  then have m3: "splitMatches asciiLower TNumber Lt ''10'' (Str ''5'')" by simp
  have "splitMatches asciiLower TNumber Eq ''10'' (Str ''5'') \<longleftrightarrow> (5::rat) = 10"
    using n5 p5 p10 by blast
  then have m4: "\<not> splitMatches asciiLower TNumber Eq ''10'' (Str ''5'')" by simp
  have m5: "\<not> splitMatches asciiLower TNumber Neq ''10'' (Str ''abc'')"
    using na pa by blast
  have "Contains \<in> {Contains, Not_contains, Starts_with, Ends_with}" by simp
  then have m6: "\<not> splitMatches asciiLower TNumber Contains ''1'' (Str ''12'')"
    using filter_split [where lc = asciiLower and cellValue = "Str ''12''" and splitValue = "''1''"
      and op = Contains] by blast
  have m7: "\<not> splitMatches asciiLower TNumber Gte ''10'' (Str ''abc'')"
    using filter_split [where lc = asciiLower and cellValue = "Str ''abc''" and splitValue = "''10''"
      and op = Gte] pa by blast
  have g: "getProp ?r1 ''Age'' = Str ''12''" "getProp ?r2 ''Age'' = Str ''5''"
    "getProp ?r3 ''Age'' = Str ''abc''" "getProp ?r1 ''City'' = Str ''Tokyo''"
    "getProp ?r2 ''City'' = Str ''Osaka''" "getProp ?r3 ''City'' = Undefined"
    by (simp_all add: getProp_def)
  have f1: "splitFilter asciiLower [?r1, ?r2, ?r3] ''Age'' TNumber Gte ''10'' = [?r1]"
    unfolding splitFilter_def by (simp only: filter.simps g m1 m2 m7 if_True if_False)
  have l1: "asciiLower (jsString (Str ''Tokyo'')) = ''tokyo''" by code_simp
  have l2: "asciiLower (jsString (Str ''Osaka'')) = ''osaka''" by code_simp
  have l3: "asciiLower ''KY'' = ''ky''" by code_simp
  have l4: "asciiLower ''TOKYO'' = ''tokyo''" by code_simp
  have l5: "asciiLower (jsString (Str [])) = []" by code_simp
  have s1: "sublist ''ky'' ''tokyo''" by (simp add: sublist_Cons_right)
  have s2: "\<not> sublist ''ky'' ''osaka''" by (simp add: sublist_Cons_right)
  have s3: "\<not> sublist ''ky'' []" by simp
  have s4: "\<not> suffix ''ky'' ''tokyo''" by (simp add: suffix_to_prefix)
  note tk = filter_split [where lc = asciiLower and cellValue = "Str ''Tokyo''" and splitValue = "''KY''"
      and strCell = "''tokyo''" and strCompare = "''ky''" and op = Gt]
  note os = filter_split [where lc = asciiLower and cellValue = "Str ''Osaka''" and splitValue = "''KY''"
      and strCell = "''osaka''" and strCompare = "''ky''"]
  note un = filter_split [where lc = asciiLower and cellValue = Undefined and splitValue = "''KY''"
      and strCell = "[]" and strCompare = "''ky''"]
  note te = filter_split [where lc = asciiLower and cellValue = "Str ''Tokyo''" and splitValue = "''TOKYO''"
      and strCell = "''tokyo''" and strCompare = "''tokyo''"]
  note oe = filter_split [where lc = asciiLower and cellValue = "Str ''Osaka''" and splitValue = "''TOKYO''"
      and strCell = "''osaka''" and strCompare = "''tokyo''"]
  have ht: "''tokyo'' = asciiLower (jsString (if Str ''Tokyo'' = Undefined \<or> Str ''Tokyo'' = Null
              then Str [] else Str ''Tokyo'')) \<and> ''ky'' = asciiLower ''KY''"
    using l1 l3 by simp
  have ho: "''osaka'' = asciiLower (jsString (if Str ''Osaka'' = Undefined \<or> Str ''Osaka'' = Null
              then Str [] else Str ''Osaka'')) \<and> ''ky'' = asciiLower ''KY''"
    using l2 l3 by simp
  have hu: "[] = asciiLower (jsString (if Undefined = Undefined \<or> Undefined = Null
              then Str [] else Undefined)) \<and> ''ky'' = asciiLower ''KY''"
    using l5 l3 by simp
  have hte: "''tokyo'' = asciiLower (jsString (if Str ''Tokyo'' = Undefined \<or> Str ''Tokyo'' = Null
              then Str [] else Str ''Tokyo'')) \<and> ''tokyo'' = asciiLower ''TOKYO''"
    using l1 l4 by simp
  have hoe: "''osaka'' = asciiLower (jsString (if Str ''Osaka'' = Undefined \<or> Str ''Osaka'' = Null
              then Str [] else Str ''Osaka'')) \<and> ''tokyo'' = asciiLower ''TOKYO''"
    using l2 l4 by simp
  have "splitMatches asciiLower TString Contains ''KY'' (Str ''Tokyo'') \<longleftrightarrow> sublist ''ky'' ''tokyo''"
    using tk ht by blast
  then have c1: "splitMatches asciiLower TString Contains ''KY'' (Str ''Tokyo'')" using s1 by simp
  have "splitMatches asciiLower TString Contains ''KY'' (Str ''Osaka'') \<longleftrightarrow> sublist ''ky'' ''osaka''"
    using os ho by blast
  then have c2: "\<not> splitMatches asciiLower TString Contains ''KY'' (Str ''Osaka'')" using s2 by simp
  have "splitMatches asciiLower TString Contains ''KY'' Undefined \<longleftrightarrow> sublist ''ky'' []"
    using un hu by blast
  then have c3: "\<not> splitMatches asciiLower TString Contains ''KY'' Undefined" using s3 by simp
  have "splitMatches asciiLower TString Eq ''TOKYO'' (Str ''Tokyo'') \<longleftrightarrow> ''tokyo'' = ''tokyo''"
    using te hte by blast
  then have c4: "splitMatches asciiLower TString Eq ''TOKYO'' (Str ''Tokyo'')" by simp
  have "splitMatches asciiLower TString Eq ''TOKYO'' (Str ''Osaka'') \<longleftrightarrow> ''osaka'' = ''tokyo''"
    using oe hoe by blast
  then have c5: "\<not> splitMatches asciiLower TString Eq ''TOKYO'' (Str ''Osaka'')" by simp
  have "splitMatches asciiLower TString Starts_with ''TOKYO'' (Str ''Tokyo'') \<longleftrightarrow> prefix ''tokyo'' ''tokyo''"
    using te hte by blast
  then have c6: "splitMatches asciiLower TString Starts_with ''TOKYO'' (Str ''Tokyo'')" by simp
  have "splitMatches asciiLower TString Ends_with ''KY'' (Str ''Tokyo'') \<longleftrightarrow> suffix ''ky'' ''tokyo''"
    using tk ht by blast
  then have c7: "\<not> splitMatches asciiLower TString Ends_with ''KY'' (Str ''Tokyo'')" using s4 by simp
  have "Gt \<in> {Gt, Lt, Gte, Lte}" by simp
  then have c8: "\<not> splitMatches asciiLower TString Gt ''KY'' (Str ''Tokyo'')"
    using tk by blast
  have f2: "splitFilter asciiLower [?r1, ?r2, ?r3] ''City'' TString Contains ''KY'' = [?r1]"
    unfolding splitFilter_def by (simp only: filter.simps g c1 c2 c3 if_True if_False)
  have nm: "''Split_'' @ ''Age'' @ ''_'' @ opLabel Gte @ ''_'' @ ''10'' = ''Split_Age_Gte_10''"
    by (simp add: opLabel_def)
  have e: "exported (executeSplit asciiLower [?r1, ?r2, ?r3] [] ''Age'' TNumber Gte ''10'')
      = Some (map (exportRow []) (splitFilter asciiLower [?r1, ?r2, ?r3] ''Age'' TNumber Gte ''10''),
              ''Split_Age_Gte_10'')"
    unfolding executeSplit_def Let_def f1 nm by simp
  have "\<forall>out name. exported (executeSplit asciiLower [?r1, ?r2, ?r3] [] ''Age'' TNumber Gte ''10'')
          = Some (out, name)
      \<longrightarrow> out = map (exportRow []) (splitFilter asciiLower [?r1, ?r2, ?r3] ''Age'' TNumber Gte ''10'')"
    using filter_split [where lc = asciiLower and currentData = "[?r1, ?r2, ?r3]" and splitField = "''Age''"
      and splitType = TNumber and splitOperator = Gte and splitValue = "''10''"
      and visibleFields = "[]"] by blast
  then have x: "exported (executeSplit asciiLower [?r1, ?r2, ?r3] [] ''Age'' TNumber Gte ''10'')
      = Some (map (exportRow []) [?r1], ''Split_Age_Gte_10'')"
    using e f1 by simp
  show ?thesis
    using p12 p5 p10 pa m1 m2 m3 m4 m5 m6 f1 l1 l2 l3 l4 c1 c2 c4 c5 c6 c7 c8 f2 x
    by (intro conjI)
qed

section \<open>Properties of the field operations\<close>

lemma handleAddField_distinct:
  "distinct (map key (stFields st)) \<Longrightarrow> distinct (map key (stFields (handleAddField st)))"
  by (auto simp: handleAddField_def Let_def)

lemma handleAddField_duplicate:
  "trim (stNewFieldName st) \<noteq> [] \<Longrightarrow> trim (stNewFieldName st) \<in> key ` set (stFields st) \<Longrightarrow>
   handleAddField st = st\<lparr>stNotified := stNotified st @ [(FieldNameExists, Error)]\<rparr>"
  by (auto simp: handleAddField_def Let_def)

lemma handleRemoveField_distinct:
  "distinct (map key (stFields st)) \<Longrightarrow> distinct (map key (stFields (handleRemoveField k st)))"
  by (simp add: handleRemoveField_def distinct_map_filter)

lemma rename_keys:
  "map key (map (\<lambda>f. if key f = oldKey then f\<lparr>label := newLabel, key := newLabel\<rparr> else f) fs)
     = map (\<lambda>k. if k = oldKey then newLabel else k) (map key fs)"
  by (induction fs) auto

lemma handleRenameField_fresh_distinct:
  assumes "distinct (map key (stFields st))" "newLabel \<notin> key ` set (stFields st)"
  shows "distinct (map key (stFields (handleRenameField oldKey newLabel st)))"
proof (cases "trim newLabel = [] \<or> newLabel = oldKey")
  case True
  then show ?thesis using assms(1) by (simp add: handleRenameField_def)
next
  case False
  have "inj_on (\<lambda>k. if k = oldKey then newLabel else k) (set (map key (stFields st)))"
    using assms(2) by (auto simp: inj_on_def)
  then have "distinct (map (\<lambda>k. if k = oldKey then newLabel else k) (map key (stFields st)))"
    using assms(1) by (simp only: distinct_map)
  then have "distinct (map key (map (\<lambda>f. if key f = oldKey then f\<lparr>label := newLabel, key := newLabel\<rparr> else f)
                (stFields st)))"
    by (simp only: rename_keys)
  moreover have "stFields (handleRenameField oldKey newLabel st)
      = map (\<lambda>f. if key f = oldKey then f\<lparr>label := newLabel, key := newLabel\<rparr> else f) (stFields st)"
    using False by (simp add: handleRenameField_def)
  ultimately show ?thesis by (simp only:)
qed

lemma map_of_objDelete: "map_of (objDelete k m) = (map_of m)(k := None)"
  by (induction m) (auto simp: objDelete_def fun_eq_iff)

lemma handleRenameField_migrates:
  assumes "trim newLabel \<noteq> []" "newLabel \<noteq> oldKey"
  shows "map_of (stMapping (handleRenameField oldKey newLabel st)) newLabel
           = Some (case map_of (stMapping st) oldKey of None \<Rightarrow> None | Some d \<Rightarrow> d)"
    and "map_of (stMapping (handleRenameField oldKey newLabel st)) oldKey = None"
    and "stJoinKey st = oldKey \<Longrightarrow> stJoinKey (handleRenameField oldKey newLabel st) = newLabel"
    and "stJoinKey st \<noteq> oldKey \<Longrightarrow> stJoinKey (handleRenameField oldKey newLabel st) = stJoinKey st"
  using assms by (simp_all add: handleRenameField_def Let_def map_of_mapSet map_of_objDelete)

text \<open>
  C9 (the code at the failing input). With the fields \<^verbatim>\<open>A\<close> and \<^verbatim>\<open>B\<close>, renaming
  \<^verbatim>\<open>A\<close> to \<^verbatim>\<open>B\<close> is carried out: no notification is sent, two fields bear the key
  \<^verbatim>\<open>B\<close>, and the mapping entry of the old \<^verbatim>\<open>B\<close> is overwritten by the candidates of
  \<^verbatim>\<open>A\<close>. Adding a field named \<^verbatim>\<open>B\<close> to the same state is refused with a
  notification and changes nothing else.
\<close>

theorem rename_to_existing_key:
  "map key (stFields (handleRenameField ''A'' ''B''
     \<lparr>stFields = [\<lparr>key = ''A'', label = ''A'', fieldType = TString\<rparr>,
                  \<lparr>key = ''B'', label = ''B'', fieldType = TString\<rparr>],
      stMapping = [(''A'', Some [''f::s::a'']), (''B'', Some [''f::s::b''])],
      stJoinKey = ''A'', stNewFieldName = ''B'', stNotified = []\<rparr>)) = [''B'', ''B'']
   \<and> stMapping (handleRenameField ''A'' ''B''
     \<lparr>stFields = [\<lparr>key = ''A'', label = ''A'', fieldType = TString\<rparr>,
                  \<lparr>key = ''B'', label = ''B'', fieldType = TString\<rparr>],
      stMapping = [(''A'', Some [''f::s::a'']), (''B'', Some [''f::s::b''])],
      stJoinKey = ''A'', stNewFieldName = ''B'', stNotified = []\<rparr>) = [(''B'', Some [''f::s::a''])]
   \<and> stNotified (handleRenameField ''A'' ''B''
     \<lparr>stFields = [\<lparr>key = ''A'', label = ''A'', fieldType = TString\<rparr>,
                  \<lparr>key = ''B'', label = ''B'', fieldType = TString\<rparr>],
      stMapping = [(''A'', Some [''f::s::a'']), (''B'', Some [''f::s::b''])],
      stJoinKey = ''A'', stNewFieldName = ''B'', stNotified = []\<rparr>) = []
   \<and> handleAddField
     \<lparr>stFields = [\<lparr>key = ''A'', label = ''A'', fieldType = TString\<rparr>,
                  \<lparr>key = ''B'', label = ''B'', fieldType = TString\<rparr>],
      stMapping = [(''A'', Some [''f::s::a'']), (''B'', Some [''f::s::b''])],
      stJoinKey = ''A'', stNewFieldName = ''B'', stNotified = []\<rparr>
     = \<lparr>stFields = [\<lparr>key = ''A'', label = ''A'', fieldType = TString\<rparr>,
                  \<lparr>key = ''B'', label = ''B'', fieldType = TString\<rparr>],
      stMapping = [(''A'', Some [''f::s::a'']), (''B'', Some [''f::s::b''])],
      stJoinKey = ''A'', stNewFieldName = ''B'', stNotified = [(FieldNameExists, Error)]\<rparr>"
  by (intro conjI; code_simp)

end
